theory Spec2Isabelle
  imports Main
begin

section \<open>JavaScript values and strings\<close>

text \<open>
  The program is \<^verbatim>\<open>src/webapp/static/product-form.js\<close>: one closure that keeps the
  selected photos, a hidden upload-session field, a debounce timer and an abortable
  analysis request consistent.

  A JavaScript string is a sequence of UTF-16 code units, modelled as a list of
  naturals (two of the status texts hold U+2026 and U+2014, which are no 8-bit
  characters). \<open>js\<close> turns an ASCII literal into such a sequence.
\<close>

type_synonym jsstring = "nat list"

definition js :: "string \<Rightarrow> jsstring" where
  "js s = map of_char s"

text \<open>
  The values that \<^verbatim>\<open>response.json()\<close> can deliver, and \<^verbatim>\<open>undefined\<close> for an absent
  property. Numbers are restricted to integers, read as the integers that JavaScript
  prints in plain decimal digits (magnitude below \<open>10\<^sup>2\<^sup>1\<close>). An object is the list of
  its members in source order; as with \<^verbatim>\<open>JSON.parse\<close>, the last of two equal keys
  wins.
\<close>

datatype jsval =
    JUndefined
  | JNull
  | JBool bool
  | JNum int
  | JStr jsstring
  | JArr "jsval list"
  | JObj "(jsstring \<times> jsval) list"

text \<open>A thrown error, identified by its \<^verbatim>\<open>name\<close> property.\<close>

datatype exn = Exn (errorName: jsstring)

definition TypeError :: exn where
  "TypeError = Exn (js ''TypeError'')"

definition AbortError :: exn where
  "AbortError = Exn (js ''AbortError'')"

text \<open>ToBoolean.\<close>

fun truthy :: "jsval \<Rightarrow> bool" where
  "truthy JUndefined = False"
| "truthy JNull = False"
| "truthy (JBool b) = b"
| "truthy (JNum n) = (n \<noteq> 0)"
| "truthy (JStr s) = (s \<noteq> [])"
| "truthy (JArr xs) = True"
| "truthy (JObj kvs) = True"

fun nullish :: "jsval \<Rightarrow> bool" where
  "nullish JUndefined = True"
| "nullish JNull = True"
| "nullish v = False"

text \<open>
  \<^verbatim>\<open>v.key\<close> for a value \<open>v\<close> that is neither null nor undefined (there the access
  throws a TypeError, which every caller below writes out), and for the keys the
  program reads (\<^verbatim>\<open>status\<close>, \<^verbatim>\<open>message\<close>, \<^verbatim>\<open>session\<close>, \<^verbatim>\<open>suggestions\<close> and the five
  suggestion names), none of which a primitive or an array has.
\<close>

fun getProp :: "jsval \<Rightarrow> jsstring \<Rightarrow> jsval" where
  "getProp (JObj kvs) k = (case map_of (rev kvs) k of None \<Rightarrow> JUndefined | Some v \<Rightarrow> v)"
| "getProp v k = JUndefined"

fun digits :: "nat \<Rightarrow> jsstring" where
  "digits n = (if n < 10 then [48 + n] else digits (n div 10) @ [48 + n mod 10])"

declare digits.simps [simp del]

fun joinWith :: "jsstring \<Rightarrow> jsstring list \<Rightarrow> jsstring" where
  "joinWith sep [] = []"
| "joinWith sep [x] = x"
| "joinWith sep (x # y # ys) = x @ sep @ joinWith sep (y # ys)"

text \<open>ToString, as \<^verbatim>\<open>String(value)\<close> and the DOM's \<^verbatim>\<open>value\<close> setter apply it.\<close>

fun toString :: "jsval \<Rightarrow> jsstring" where
  "toString JUndefined = js ''undefined''"
| "toString JNull = js ''null''"
| "toString (JBool b) = (if b then js ''true'' else js ''false'')"
| "toString (JNum n) = (if n < 0 then js ''-'' @ digits (nat (- n)) else digits (nat n))"
| "toString (JStr s) = s"
| "toString (JArr xs) =
     joinWith (js '','') (map (\<lambda>x. if x = JNull \<or> x = JUndefined then [] else toString x) xs)"
| "toString (JObj kvs) = js ''[object Object]''"

text \<open>
  \<^verbatim>\<open>String.prototype.trim\<close> removes white space and line terminators from both ends.
\<close>

definition isSpace :: "nat \<Rightarrow> bool" where
  "isSpace c \<longleftrightarrow>
     c \<in> {9, 10, 11, 12, 13, 32, 160, 5760, 8232, 8233, 8239, 8287, 12288, 65279}
     \<or> (8192 \<le> c \<and> c \<le> 8202)"

definition trim :: "jsstring \<Rightarrow> jsstring" where
  "trim s = rev (dropWhile isSpace (rev (dropWhile isSpace s)))"

section \<open>The Suggestion Applier\<close>

text \<open>
  A form control as the program sees it: its tag name, its current value and, for a
  \<^verbatim>\<open>select\<close>, the values of its options. \<^verbatim>\<open>form.querySelector\<close> gives null for a
  control the page does not have, hence the \<open>option\<close>.
\<close>

record element =
  tagName :: jsstring
  elemValue :: jsstring
  optionValues :: "jsstring list"

record formFields =
  serialField :: "element option"
  assetTagField :: "element option"
  descriptionField :: "element option"
  subcategoryField :: "element option"
  destinationField :: "element option"

fun gentlySetValue :: "element option \<Rightarrow> jsval \<Rightarrow> element option" where
  "gentlySetValue None v = None"
| "gentlySetValue (Some el) v =
     (if \<not> truthy v then Some el
      else if tagName el = js ''SELECT'' then
        (let stringValue = toString v in
         if stringValue \<in> set (optionValues el)
         then Some (el\<lparr>elemValue := stringValue\<rparr>)
         else Some el)
      else if length (trim (elemValue el)) = 0 then Some (el\<lparr>elemValue := toString v\<rparr>)
      else Some el)"

text \<open>
  \<^verbatim>\<open>applySuggestions(suggestions = {})\<close>: the default replaces undefined only, so a
  null argument throws at the first property access, before any field is written.
\<close>

definition setDescription :: "element option \<Rightarrow> jsval \<Rightarrow> element option" where
  "setDescription fld v =
     (case fld of
        None \<Rightarrow> None
      | Some el \<Rightarrow>
          if truthy v then
            (if length (trim (elemValue el)) = 0 then Some (el\<lparr>elemValue := toString v\<rparr>)
             else Some el)
          else Some el)"

definition applySuggestions :: "jsval \<Rightarrow> formFields \<Rightarrow> exn + formFields" where
  "applySuggestions arg form =
     (let suggestions = (if arg = JUndefined then JObj [] else arg) in
      if nullish suggestions then Inl TypeError
      else
        let f1 = form\<lparr>serialField :=
                   gentlySetValue (serialField form) (getProp suggestions (js ''serial_number''))\<rparr>;
            f2 = f1\<lparr>assetTagField :=
                   gentlySetValue (assetTagField f1) (getProp suggestions (js ''asset_tag''))\<rparr>;
            f3 = f2\<lparr>descriptionField :=
                   setDescription (descriptionField f2)
                     (getProp suggestions (js ''short_description''))\<rparr>;
            f4 = f3\<lparr>subcategoryField :=
                   gentlySetValue (subcategoryField f3) (getProp suggestions (js ''subcategory''))\<rparr>;
            cod = getProp suggestions (js ''cod_destiny'')
        in Inr (if destinationField f4 \<noteq> None \<and> cod \<noteq> JNull \<and> cod \<noteq> JUndefined
                then f4\<lparr>destinationField := gentlySetValue (destinationField f4) cod\<rparr>
                else f4))"

text \<open>The five recognised fields by name, with the suggestion each one reads.\<close>

datatype fieldName = Serial | AssetTag | Description | Subcategory | Destination

fun fieldOf :: "fieldName \<Rightarrow> formFields \<Rightarrow> element option" where
  "fieldOf Serial form = serialField form"
| "fieldOf AssetTag form = assetTagField form"
| "fieldOf Description form = descriptionField form"
| "fieldOf Subcategory form = subcategoryField form"
| "fieldOf Destination form = destinationField form"

fun suggestionKey :: "fieldName \<Rightarrow> jsstring" where
  "suggestionKey Serial = js ''serial_number''"
| "suggestionKey AssetTag = js ''asset_tag''"
| "suggestionKey Description = js ''short_description''"
| "suggestionKey Subcategory = js ''subcategory''"
| "suggestionKey Destination = js ''cod_destiny''"

section \<open>The widget's state\<close>

record jsfile =
  fileName :: jsstring
  fileSize :: nat

text \<open>An entry of \<^verbatim>\<open>selectedFiles\<close>.\<close>

record photo =
  pid :: jsstring
  pfile :: jsfile
  previewUrl :: jsstring

text \<open>
  A request sent by \<^verbatim>\<open>fetch\<close>. Each call of \<^verbatim>\<open>runAnalysis\<close> makes one
  AbortController and one request wired to its signal, so a controller is identified
  with the number of its request.
\<close>

record request =
  reqId :: nat
  reqUrl :: jsstring
  reqFiles :: "jsfile list"
  reqAborted :: bool
  reqSettled :: bool

record thumb =
  thumbSrc :: jsstring
  thumbAlt :: jsstring
  thumbRemoves :: jsstring

text \<open>
  What is fixed once the script has started: the trimmed initial status text, the
  optional controls, the pickup and pallet of the form, whether the browser has the
  \<^verbatim>\<open>DataTransfer\<close> constructor and the function \<^verbatim>\<open>crypto.randomUUID\<close>, and the
  environment's answers at the successive calls of \<^verbatim>\<open>generateId\<close> (what
  \<^verbatim>\<open>crypto.randomUUID()\<close>, \<^verbatim>\<open>Date.now()\<close> and \<^verbatim>\<open>Math.random().toString(16)\<close> give
  at the call of that number) and of \<^verbatim>\<open>URL.createObjectURL\<close>.
\<close>

record page =
  defaultStatus :: jsstring
  hasDataTransfer :: bool
  hasClearButton :: bool
  hasTrigger :: bool
  pickupNumber :: jsstring
  palletNumber :: jsstring
  hasRandomUUID :: bool
  uuidSource :: "nat \<Rightarrow> jsstring"
  clockSource :: "nat \<Rightarrow> nat"
  randomSource :: "nat \<Rightarrow> jsstring"
  urlSource :: "nat \<Rightarrow> jsstring"

text \<open>
  \<^verbatim>\<open>generateId\<close> at its call number \<open>k\<close>: the UUID of the browser where there is
  one, and otherwise the clock in hexadecimal, a hyphen and the characters 2 to 7 of
  the random number written in hexadecimal (\<^verbatim>\<open>slice(2, 8)\<close>).
\<close>

fun hexDigits :: "nat \<Rightarrow> jsstring" where
  "hexDigits n =
     (if n < 16 then [if n < 10 then 48 + n else 87 + n]
      else hexDigits (n div 16) @ [if n mod 16 < 10 then 48 + n mod 16 else 87 + n mod 16])"

declare hexDigits.simps [simp del]

definition generateId :: "page \<Rightarrow> nat \<Rightarrow> jsstring" where
  "generateId p k =
     (if hasRandomUUID p then uuidSource p k
      else hexDigits (clockSource p k) @ js ''-'' @ take 6 (drop 2 (randomSource p k)))"

text \<open>
  The closure's variables (\<open>selectedFiles\<close>, \<open>analysisController\<close>, \<open>analyzing\<close>,
  \<open>analysisTimeout\<close>), the DOM state it reads and writes, and the environment: live
  object URLs, pending timers with their due times, the clock in milliseconds, the
  requests sent so far, and how often the file chooser was opened.
\<close>

record state =
  selectedFiles :: "photo list"
  analysisController :: "nat option"
  analyzing :: bool
  analysisTimeout :: "nat option"
  sessionValue :: jsstring
  statusText :: jsstring
  statusTone :: "jsstring option"
  fileInputFiles :: "jsfile list"
  clearHidden :: bool
  strip :: "thumb list"
  formState :: formFields
  liveUrls :: "jsstring list"
  idCalls :: nat
  urlCalls :: nat
  timers :: "(nat \<times> nat) list"
  nextTimer :: nat
  now :: nat
  requests :: "request list"
  chooserOpens :: nat

definition MAX_FILES :: nat where
  "MAX_FILES = 10"

definition MAX_TOTAL_BYTES :: nat where
  "MAX_TOTAL_BYTES = 25 * 1024 * 1024"

definition limitMessage :: jsstring where
  "limitMessage =
     js ''Limit '' @ digits MAX_FILES @ js '' photos per product. Remove some before adding more.''"

definition sizeMessage :: jsstring where
  "sizeMessage = js ''Images exceed the 25 MB limit. Remove large files before retrying.''"

definition analyzingMessage :: jsstring where
  "analyzingMessage = js ''Analyzing photos'' @ [8230]"

definition failedMessage :: jsstring where
  "failedMessage = js ''Photo analysis failed. Please submit manually or retry.''"

definition readyMessage :: jsstring where
  "readyMessage = js ''Suggestions ready'' @ [8212] @ js ''review and adjust if needed.''"

definition networkMessage :: jsstring where
  "networkMessage = js ''Network error while analyzing photos. Please retry.''"

definition clearedMessage :: jsstring where
  "clearedMessage = js ''Photos cleared. Add new photos to try again.''"

section \<open>Helpers of the closure\<close>

definition revokeObjectURL :: "jsstring \<Rightarrow> state \<Rightarrow> state" where
  "revokeObjectURL url s = s\<lparr>liveUrls := remove1 url (liveUrls s)\<rparr>"

definition revokeAllPreviews :: "state \<Rightarrow> state" where
  "revokeAllPreviews s =
     foldl (\<lambda>acc item. if previewUrl item \<noteq> [] then revokeObjectURL (previewUrl item) acc else acc)
       s (selectedFiles s)"

text \<open>
  \<^verbatim>\<open>showStatus(message, tone = "")\<close> for a string message: a blank message shows the
  default text, an empty tone deletes \<^verbatim>\<open>data-tone\<close>.
\<close>

definition showStatusText :: "page \<Rightarrow> jsstring \<Rightarrow> jsstring \<Rightarrow> state \<Rightarrow> state" where
  "showStatusText p message tone s =
     (let text = (if message \<noteq> [] \<and> length (trim message) \<noteq> 0 then message else defaultStatus p)
      in s\<lparr>statusText := text, statusTone := (if tone \<noteq> [] then Some tone else None)\<rparr>)"

text \<open>
  The same function for any value: a falsy message shows the default text, and a truthy
  value that is no string has no \<^verbatim>\<open>trim\<close> method, so the call throws before anything
  is written.
\<close>

definition showStatus :: "page \<Rightarrow> jsval \<Rightarrow> jsstring \<Rightarrow> state \<Rightarrow> exn + state" where
  "showStatus p message tone s =
     (if \<not> truthy message then Inr (showStatusText p [] tone s)
      else case message of
             JStr m \<Rightarrow> Inr (showStatusText p m tone s)
           | _ \<Rightarrow> Inl TypeError)"

definition updateClearButton :: "page \<Rightarrow> state \<Rightarrow> state" where
  "updateClearButton p s =
     (if \<not> hasClearButton p then s else s\<lparr>clearHidden := (length (selectedFiles s) = 0)\<rparr>)"

definition syncFileInput :: "page \<Rightarrow> state \<Rightarrow> state" where
  "syncFileInput p s =
     (if \<not> hasDataTransfer p then s else s\<lparr>fileInputFiles := map pfile (selectedFiles s)\<rparr>)"

definition clearSession :: "state \<Rightarrow> state" where
  "clearSession s = s\<lparr>sessionValue := []\<rparr>"

definition renderStrip :: "state \<Rightarrow> state" where
  "renderStrip s =
     s\<lparr>strip := map (\<lambda>(index, item).
                    \<lparr>thumbSrc = previewUrl item,
                     thumbAlt = js ''Product photo '' @ digits (index + 1),
                     thumbRemoves = pid item\<rparr>)
                  (enumerate 0 (selectedFiles s))\<rparr>"

definition totalBytes :: "state \<Rightarrow> nat" where
  "totalBytes s = foldl (\<lambda>sum entry. sum + fileSize (pfile entry)) 0 (selectedFiles s)"

text \<open>
  Timers. \<^verbatim>\<open>setTimeout\<close> returns a handle greater than zero, so that a live handle is
  truthy; \<^verbatim>\<open>clearTimeout\<close> drops the pending timer of that handle.
\<close>

definition handleTruthy :: "nat option \<Rightarrow> bool" where
  "handleTruthy h = (case h of None \<Rightarrow> False | Some t \<Rightarrow> t \<noteq> 0)"

definition clearTimeout :: "nat option \<Rightarrow> state \<Rightarrow> state" where
  "clearTimeout h s =
     (case h of None \<Rightarrow> s | Some t \<Rightarrow> s\<lparr>timers := filter (\<lambda>(i, due). i \<noteq> t) (timers s)\<rparr>)"

definition setTimeout :: "nat \<Rightarrow> state \<Rightarrow> nat \<times> state" where
  "setTimeout delay s =
     (nextTimer s,
      s\<lparr>timers := timers s @ [(nextTimer s, now s + delay)], nextTimer := nextTimer s + 1\<rparr>)"

definition queueAnalysis :: "state \<Rightarrow> state" where
  "queueAnalysis s =
     (let s1 = (if handleTruthy (analysisTimeout s) then clearTimeout (analysisTimeout s) s else s);
          (t, s2) = setTimeout 350 s1
      in s2\<lparr>analysisTimeout := Some t\<rparr>)"

definition cancelPendingTimer :: "state \<Rightarrow> state" where
  "cancelPendingTimer s =
     (if handleTruthy (analysisTimeout s)
      then (clearTimeout (analysisTimeout s) s)\<lparr>analysisTimeout := None\<rparr>
      else s)"

section \<open>The Selection Store\<close>

fun findIndex :: "('a \<Rightarrow> bool) \<Rightarrow> 'a list \<Rightarrow> nat option" where
  "findIndex P [] = None"
| "findIndex P (x # xs) =
     (if P x then Some 0 else case findIndex P xs of None \<Rightarrow> None | Some i \<Rightarrow> Some (Suc i))"

definition removeFile :: "page \<Rightarrow> jsstring \<Rightarrow> state \<Rightarrow> state" where
  "removeFile p ident s =
     (case findIndex (\<lambda>entry. pid entry = ident) (selectedFiles s) of
        None \<Rightarrow> s
      | Some index \<Rightarrow>
          let removed = selectedFiles s ! index;
              s1 = s\<lparr>selectedFiles := take index (selectedFiles s) @ drop (Suc index) (selectedFiles s)\<rparr>;
              s2 = (if previewUrl removed \<noteq> [] then revokeObjectURL (previewUrl removed) s1 else s1);
              s3 = updateClearButton p (renderStrip (syncFileInput p (clearSession s2)))
          in if length (selectedFiles s3) \<noteq> 0 then queueAnalysis s3
             else showStatusText p (defaultStatus p) [] (cancelPendingTimer s3))"

definition pushFile :: "page \<Rightarrow> state \<Rightarrow> jsfile \<Rightarrow> state" where
  "pushFile p s f =
     (let ident = generateId p (idCalls s);
          url = urlSource p (urlCalls s)
      in s\<lparr>selectedFiles := selectedFiles s @ [\<lparr>pid = ident, pfile = f, previewUrl = url\<rparr>],
           idCalls := idCalls s + 1,
           urlCalls := urlCalls s + 1,
           liveUrls := liveUrls s @ [url]\<rparr>)"

text \<open>
  \<^verbatim>\<open>handleFiles(fileList)\<close>; a \<open>None\<close> in the list is a falsy entry, which
  \<^verbatim>\<open>filter(Boolean)\<close> drops.
\<close>

definition handleFiles :: "page \<Rightarrow> jsfile option list \<Rightarrow> state \<Rightarrow> state" where
  "handleFiles p fileList s =
     (let incoming = List.map_filter id fileList in
      if length incoming = 0 then s
      else
        let newCount = length (selectedFiles s) + length incoming in
        if newCount > MAX_FILES then showStatusText p limitMessage (js ''error'') s
        else
          let incomingBytes = foldl (\<lambda>sum f. sum + fileSize f) 0 incoming in
          if totalBytes s + incomingBytes > MAX_TOTAL_BYTES
          then showStatusText p sizeMessage (js ''error'') s
          else queueAnalysis
                 (updateClearButton p
                   (renderStrip (syncFileInput p (clearSession (foldl (pushFile p) s incoming))))))"

definition clearClicked :: "page \<Rightarrow> state \<Rightarrow> state" where
  "clearClicked p s =
     (let s1 = revokeAllPreviews (cancelPendingTimer s);
          s2 = s1\<lparr>selectedFiles := []\<rparr>
      in showStatusText p clearedMessage (js ''info'')
           (updateClearButton p (renderStrip (syncFileInput p (clearSession s2)))))"

definition formReset :: "page \<Rightarrow> state \<Rightarrow> state" where
  "formReset p s =
     (let s1 = revokeAllPreviews (cancelPendingTimer s);
          s2 = s1\<lparr>selectedFiles := []\<rparr>
      in (updateClearButton p (showStatusText p (defaultStatus p) [] (clearSession s2)))
           \<lparr>strip := []\<rparr>)"

definition formSubmit :: "page \<Rightarrow> state \<Rightarrow> state" where
  "formSubmit p s =
     (if sessionValue s \<noteq> [] then
        (if hasDataTransfer p then s\<lparr>fileInputFiles := []\<rparr> else s\<lparr>fileInputFiles := []\<rparr>)
      else syncFileInput p s)"

definition triggerClicked :: "state \<Rightarrow> state" where
  "triggerClicked s = (if analyzing s then s else s\<lparr>chooserOpens := chooserOpens s + 1\<rparr>)"

section \<open>The Debounced Analysis Trigger\<close>

definition abortRequest :: "nat \<Rightarrow> state \<Rightarrow> state" where
  "abortRequest c s =
     s\<lparr>requests := map (\<lambda>r. if reqId r = c then r\<lparr>reqAborted := True\<rparr> else r) (requests s)\<rparr>"

definition analyzeUrl :: "page \<Rightarrow> jsstring" where
  "analyzeUrl p =
     js ''/pickups/'' @ pickupNumber p @ js ''/pallets/'' @ palletNumber p @ js ''/products/analyze''"

text \<open>
  \<^verbatim>\<open>runAnalysis\<close> up to its first \<^verbatim>\<open>await\<close>: everything the timer callback does
  before it gives control back, the request included.
\<close>

definition runAnalysis :: "page \<Rightarrow> state \<Rightarrow> state" where
  "runAnalysis p s =
     (if length (selectedFiles s) = 0 then s
      else
        let s1 = cancelPendingTimer s;
            s2 = (case analysisController s1 of None \<Rightarrow> s1 | Some c \<Rightarrow> abortRequest c s1);
            rid = length (requests s2);
            s3 = s2\<lparr>analysisController := Some rid, analyzing := True\<rparr>;
            s4 = showStatusText p analyzingMessage (js ''progress'') s3
        in s4\<lparr>requests := requests s4 @
                 [\<lparr>reqId = rid, reqUrl = analyzeUrl p, reqFiles = map pfile (selectedFiles s4),
                   reqAborted = False, reqSettled = False\<rparr>]\<rparr>)"

text \<open>
  How the two awaited promises end: \<^verbatim>\<open>fetch\<close> rejects with an error of some name, or
  it gives a response with its \<^verbatim>\<open>ok\<close> flag, whose \<^verbatim>\<open>json()\<close> then gives a value or
  rejects (\<open>None\<close>). The program touches no state between the two awaits, so one
  settlement stands for both.
\<close>

datatype outcome = FetchRejected jsstring | Responded bool "jsval option"

text \<open>
  The body of the \<^verbatim>\<open>try\<close> after the awaits. The result is the state at the point
  where the block is left and the error thrown there, if any.
\<close>

definition analysisResolved :: "page \<Rightarrow> bool \<Rightarrow> jsval \<Rightarrow> state \<Rightarrow> exn option \<times> state" where
  "analysisResolved p ok payload s =
     (if nullish payload then (Some TypeError, s)
      else if \<not> ok \<or> getProp payload (js ''status'') \<noteq> JStr (js ''ok'') then
        (let message = (if truthy (getProp payload (js ''message''))
                        then getProp payload (js ''message'') else JStr failedMessage);
             s1 = clearSession s
         in case showStatus p message (js ''error'') s1 of
              Inl e \<Rightarrow> (Some e, s1)
            | Inr s2 \<Rightarrow> (None, s2))
      else
        (let session = (if truthy (getProp payload (js ''session''))
                        then getProp payload (js ''session'') else JStr []);
             s1 = s\<lparr>sessionValue := toString session\<rparr>;
             suggestions = (if truthy (getProp payload (js ''suggestions''))
                            then getProp payload (js ''suggestions'') else JObj [])
         in case applySuggestions suggestions (formState s1) of
              Inl e \<Rightarrow> (Some e, s1)
            | Inr form \<Rightarrow>
                (None, showStatusText p readyMessage (js ''success'') (s1\<lparr>formState := form\<rparr>))))"

text \<open>The \<^verbatim>\<open>catch\<close> block and the \<^verbatim>\<open>finally\<close> block.\<close>

definition analysisFailed :: "page \<Rightarrow> exn \<Rightarrow> state \<Rightarrow> state" where
  "analysisFailed p error s =
     (if errorName error = js ''AbortError'' then s
      else showStatusText p networkMessage (js ''error'') (clearSession s))"

definition analysisFinally :: "state \<Rightarrow> state" where
  "analysisFinally s = s\<lparr>analyzing := False, analysisController := None\<rparr>"

text \<open>
  The rest of \<^verbatim>\<open>runAnalysis\<close>, run when its request settles. A \<^verbatim>\<open>json()\<close> that
  rejects is replaced by the empty object.
\<close>

definition settleAnalysis :: "page \<Rightarrow> outcome \<Rightarrow> state \<Rightarrow> state" where
  "settleAnalysis p out s =
     analysisFinally
       (case out of
          FetchRejected name \<Rightarrow> analysisFailed p (Exn name) s
        | Responded ok body \<Rightarrow>
            (let payload = (case body of None \<Rightarrow> JObj [] | Some v \<Rightarrow> v) in
             case analysisResolved p ok payload s of
               (None, s') \<Rightarrow> s'
             | (Some e, s') \<Rightarrow> analysisFailed p e s'))"

section \<open>Events\<close>

text \<open>
  The environment of the closure. An aborted request settles with an AbortError from
  \<^verbatim>\<open>fetch\<close> or, when the response had arrived and its body was being read, with a
  rejected \<^verbatim>\<open>json()\<close>; a request that was not aborted never gives an AbortError.
\<close>

fun outcomePossible :: "request \<Rightarrow> outcome \<Rightarrow> bool" where
  "outcomePossible r (FetchRejected name) = (reqAborted r \<longleftrightarrow> name = js ''AbortError'')"
| "outcomePossible r (Responded ok (Some v)) = (\<not> reqAborted r)"
| "outcomePossible r (Responded ok None) = True"

definition timerDue :: "nat \<Rightarrow> state \<Rightarrow> bool" where
  "timerDue t s \<longleftrightarrow> (\<exists>(i, due) \<in> set (timers s). i = t \<and> due \<le> now s)"

definition canSettle :: "nat \<Rightarrow> outcome \<Rightarrow> state \<Rightarrow> bool" where
  "canSettle rid out s \<longleftrightarrow>
     (\<exists>r \<in> set (requests s). reqId r = rid \<and> \<not> reqSettled r \<and> outcomePossible r out)"

definition markSettled :: "nat \<Rightarrow> state \<Rightarrow> state" where
  "markSettled rid s =
     s\<lparr>requests := map (\<lambda>r. if reqId r = rid then r\<lparr>reqSettled := True\<rparr> else r) (requests s)\<rparr>"

datatype event =
    FilesChosen "jsfile list"
  | RemoveClicked jsstring
  | ClearClicked
  | TriggerClicked
  | Submitted
  | ResetForm
  | Elapsed nat
  | TimerFired nat
  | Settled nat outcome

text \<open>
  One task of the event loop. Choosing files puts them into the native file input
  before the \<^verbatim>\<open>change\<close> listener runs; a timer runs its callback only while it is
  pending and due; a request settles once. For \<^verbatim>\<open>submit\<close> and \<^verbatim>\<open>reset\<close> the step is
  what the listener does; what the browser does to the form after the listener is not
  part of the program.
\<close>

fun step :: "page \<Rightarrow> event \<Rightarrow> state \<Rightarrow> state" where
  "step p (FilesChosen fs) s = handleFiles p (map Some fs) (s\<lparr>fileInputFiles := fs\<rparr>)"
| "step p (RemoveClicked ident) s = removeFile p ident s"
| "step p ClearClicked s = (if hasClearButton p then clearClicked p s else s)"
| "step p TriggerClicked s = (if hasTrigger p then triggerClicked s else s)"
| "step p Submitted s = formSubmit p s"
| "step p ResetForm s = formReset p s"
| "step p (Elapsed d) s = s\<lparr>now := now s + d\<rparr>"
| "step p (TimerFired t) s =
     (if timerDue t s then runAnalysis p (s\<lparr>timers := filter (\<lambda>(i, due). i \<noteq> t) (timers s)\<rparr>)
      else s)"
| "step p (Settled rid out) s =
     (if canSettle rid out s then settleAnalysis p out (markSettled rid s) else s)"

definition run :: "page \<Rightarrow> event list \<Rightarrow> state \<Rightarrow> state" where
  "run p es s = foldl (\<lambda>acc e. step p e acc) s es"

text \<open>
  The state right after the script has run: nothing selected, nothing pending, the
  session field empty and the status showing its initial text.
\<close>

definition initState :: "page \<Rightarrow> formFields \<Rightarrow> state" where
  "initState p form =
     updateClearButton p
       \<lparr>selectedFiles = [], analysisController = None, analyzing = False,
        analysisTimeout = None, sessionValue = [], statusText = defaultStatus p,
        statusTone = None, fileInputFiles = [], clearHidden = False, strip = [],
        formState = form, liveUrls = [], idCalls = 0, urlCalls = 0, timers = [],
        nextTimer = 1, now = 0, requests = [], chooserOpens = 0\<rparr>"

text \<open>The requests that were sent and are neither settled nor aborted.\<close>

definition inFlight :: "state \<Rightarrow> nat list" where
  "inFlight s = map reqId (filter (\<lambda>r. \<not> reqSettled r \<and> \<not> reqAborted r) (requests s))"

section \<open>Invariants used in the statements\<close>

text \<open>
  The limits of the store, and the origin of its ids: they are distinct and each one
  was an answer of the generator.
\<close>

definition storeWithinLimits :: "state \<Rightarrow> bool" where
  "storeWithinLimits s \<longleftrightarrow>
     length (selectedFiles s) \<le> MAX_FILES \<and> totalBytes s \<le> MAX_TOTAL_BYTES"

definition idsGenerated :: "page \<Rightarrow> state \<Rightarrow> bool" where
  "idsGenerated p s \<longleftrightarrow>
     distinct (map pid (selectedFiles s)) \<and>
     (\<forall>ph \<in> set (selectedFiles s). \<exists>k < idCalls s. pid ph = generateId p k)"

text \<open>
  The timers: handles are given out in increasing order from 1, and every pending timer
  is the one whose handle \<open>analysisTimeout\<close> holds, so that at most one is pending.
  A handle is spent when it was given out and is no longer pending. Two states agree on
  their timers when the pending timers, the stored handle, the next handle and the clock
  are the same.
\<close>

definition timersTracked :: "state \<Rightarrow> bool" where
  "timersTracked s \<longleftrightarrow>
     0 < nextTimer s \<and> distinct (map fst (timers s)) \<and>
     (\<forall>(i, due) \<in> set (timers s). analysisTimeout s = Some i \<and> i \<noteq> 0 \<and> i < nextTimer s)"

definition spent :: "nat \<Rightarrow> state \<Rightarrow> bool" where
  "spent t s \<longleftrightarrow> t < nextTimer s \<and> t \<notin> fst ` set (timers s)"

definition sameTimers :: "state \<Rightarrow> state \<Rightarrow> bool" where
  "sameTimers s' s \<longleftrightarrow>
     timers s' = timers s \<and> analysisTimeout s' = analysisTimeout s \<and>
     nextTimer s' = nextTimer s \<and> now s' = now s"

section \<open>Sample inputs\<close>

text \<open>Concrete pages, forms, files and payloads on which the theorems below are run.\<close>

definition selectElem :: element where
  "selectElem =
     \<lparr>tagName = js ''SELECT'', elemValue = js ''A'', optionValues = [js ''A'', js ''B'']\<rparr>"

definition textElem :: element where
  "textElem = \<lparr>tagName = js ''INPUT'', elemValue = js ''X1'', optionValues = []\<rparr>"

definition sampleForm :: formFields where
  "sampleForm =
     \<lparr>serialField = Some textElem, assetTagField = None, descriptionField = None,
      subcategoryField = Some selectElem, destinationField = None\<rparr>"

definition sampleSuggestions :: jsval where
  "sampleSuggestions =
     JObj [(js ''serial_number'', JStr (js ''SN1'')), (js ''subcategory'', JStr (js ''B''))]"

definition samplePage :: page where
  "samplePage =
     \<lparr>defaultStatus = js ''Add photos'', hasDataTransfer = True, hasClearButton = True,
      hasTrigger = True, pickupNumber = js ''7'', palletNumber = js ''3'',
      hasRandomUUID = True, uuidSource = (\<lambda>n. js ''photo-'' @ replicate n 105),
      clockSource = (\<lambda>n. 0), randomSource = (\<lambda>n. js ''0''),
      urlSource = (\<lambda>n. js ''blob:'' @ replicate n 117)\<rparr>"


definition fileA :: jsfile where
  "fileA = \<lparr>fileName = js ''a.jpg'', fileSize = 2097152\<rparr>"

definition fileHuge :: jsfile where
  "fileHuge = \<lparr>fileName = js ''huge.jpg'', fileSize = 30000000\<rparr>"

definition boundState :: state where
  "boundState =
     (step samplePage (FilesChosen [fileA]) (initState samplePage sampleForm))
       \<lparr>sessionValue := js ''abc''\<rparr>"

definition legacyPage :: page where
  "legacyPage = samplePage\<lparr>hasDataTransfer := False\<rparr>"

definition fileB :: jsfile where
  "fileB = \<lparr>fileName = js ''b.jpg'', fileSize = 1000\<rparr>"

definition fileC :: jsfile where
  "fileC = \<lparr>fileName = js ''c.jpg'', fileSize = 5\<rparr>"

definition blankPayload :: jsval where
  "blankPayload = JObj [(js ''status'', JStr (js ''error'')), (js ''message'', JStr (js '' ''))]"

definition errorPayload :: jsval where
  "errorPayload = JObj [(js ''status'', JStr (js ''error'')), (js ''message'', JStr (js ''No label''))]"

definition okPayload :: jsval where
  "okPayload = JObj [(js ''status'', JStr (js ''ok'')), (js ''suggestions'', sampleSuggestions)]"

definition stalePayload :: jsval where
  "stalePayload = JObj [(js ''status'', JStr (js ''ok'')), (js ''session'', JStr (js ''stale''))]"

definition analyzingState :: state where
  "analyzingState =
     run samplePage [FilesChosen [fileA], Elapsed 350, TimerFired 1] (initState samplePage sampleForm)"

definition firstStarted :: state where
  "firstStarted =
     run samplePage [FilesChosen [fileA, fileB, fileC], Elapsed 350, TimerFired 1]
       (initState samplePage sampleForm)"

definition secondStarted :: state where
  "secondStarted =
     run samplePage [RemoveClicked (js ''photo-''), Elapsed 350, TimerFired 2] firstStarted"

definition firstAborted :: state where
  "firstAborted = step samplePage (Settled 0 (FetchRejected (js ''AbortError''))) secondStarted"

definition thirdStarted :: state where
  "thirdStarted =
     run samplePage [RemoveClicked (js ''photo-i''), Elapsed 350, TimerFired 3] firstAborted"

definition staleSettled :: state where
  "staleSettled = step samplePage (Settled 1 (Responded True (Some stalePayload))) thirdStarted"

definition bodyAborted :: state where
  "bodyAborted = step samplePage (Settled 0 (Responded True None)) secondStarted"

section \<open>Properties of the Suggestion Applier\<close>

lemma gentlySetValue_Some:
  "gentlySetValue (Some el) v =
     Some (if tagName el = js ''SELECT''
           then (if truthy v \<and> toString v \<in> set (optionValues el)
                 then el\<lparr>elemValue := toString v\<rparr> else el)
           else (if truthy v \<and> trim (elemValue el) = []
                 then el\<lparr>elemValue := toString v\<rparr> else el))"
  by (simp add: Let_def)

lemma setDescription_Some:
  "setDescription (Some el) v =
     Some (if truthy v \<and> trim (elemValue el) = [] then el\<lparr>elemValue := toString v\<rparr> else el)"
  by (simp add: setDescription_def)

lemma getProp_undefined_arg:
  "getProp (if sug = JUndefined then JObj [] else sug) k = getProp sug k"
  by (cases sug) simp_all

text \<open>
  When the call returns, every field has gone through its own setter with the
  suggestion of its own key; the guard in front of the destination's setter only
  repeats what the setter checks itself.
\<close>

lemma applySuggestions_Inr:
  assumes "applySuggestions sug form = Inr form'"
  shows "form' =
    \<lparr>serialField = gentlySetValue (serialField form) (getProp sug (js ''serial_number'')),
     assetTagField = gentlySetValue (assetTagField form) (getProp sug (js ''asset_tag'')),
     descriptionField =
       setDescription (descriptionField form) (getProp sug (js ''short_description'')),
     subcategoryField = gentlySetValue (subcategoryField form) (getProp sug (js ''subcategory'')),
     destinationField = gentlySetValue (destinationField form) (getProp sug (js ''cod_destiny''))\<rparr>"
proof -
  let ?cod = "getProp sug (js ''cod_destiny'')"
  have d: "(if destinationField form \<noteq> None \<and> ?cod \<noteq> JNull \<and> ?cod \<noteq> JUndefined
            then gentlySetValue (destinationField form) ?cod else destinationField form)
           = gentlySetValue (destinationField form) ?cod"
    by (cases "destinationField form") auto
  from assms show ?thesis
    unfolding applySuggestions_def Let_def getProp_undefined_arg
    using d by (cases form) (auto split: if_splits)
qed

lemma applySuggestions_throws:
  "(\<exists>e. applySuggestions sug form = Inl e) \<longleftrightarrow> sug = JNull"
  by (cases sug) (simp_all add: applySuggestions_def Let_def)

text \<open>
  C1 (as amended). Let a recognised field be present when suggestions are applied.
  If it is the description, or its element is no \<^verbatim>\<open>SELECT\<close>, a value that is not
  blank stays as it is, and the field changes only when it was blank and the suggestion
  is truthy; it then holds the suggestion as a string. If it is one of the other four
  fields and its element is a \<^verbatim>\<open>SELECT\<close>, a truthy suggestion that equals the value of
  one of its options is selected whatever the current value is; any other suggestion
  leaves the field as it is.
\<close>

theorem applySuggestions_fields:
  assumes "applySuggestions sug form = Inr form'" and "fieldOf n form = Some el"
  shows "(n = Description \<or> tagName el \<noteq> js ''SELECT'' \<longrightarrow>
            (trim (elemValue el) \<noteq> [] \<longrightarrow> fieldOf n form' = Some el) \<and>
            (fieldOf n form' \<noteq> Some el \<longrightarrow>
               trim (elemValue el) = [] \<and> truthy (getProp sug (suggestionKey n)) \<and>
               fieldOf n form' = Some (el\<lparr>elemValue := toString (getProp sug (suggestionKey n))\<rparr>)))
       \<and> (n \<noteq> Description \<and> tagName el = js ''SELECT'' \<longrightarrow>
            fieldOf n form' =
              Some (if truthy (getProp sug (suggestionKey n)) \<and>
                       toString (getProp sug (suggestionKey n)) \<in> set (optionValues el)
                    then el\<lparr>elemValue := toString (getProp sug (suggestionKey n))\<rparr> else el))"
proof -
  note f = applySuggestions_Inr [OF assms(1)]
  show ?thesis
  proof (cases n)
    case Serial
    with assms(2) f show ?thesis by (simp add: gentlySetValue_Some del: gentlySetValue.simps)
  next
    case AssetTag
    with assms(2) f show ?thesis by (simp add: gentlySetValue_Some del: gentlySetValue.simps)
  next
    case Description
    with assms(2) f show ?thesis by (simp add: setDescription_Some)
  next
    case Subcategory
    with assms(2) f show ?thesis by (simp add: gentlySetValue_Some del: gentlySetValue.simps)
  next
    case Destination
    with assms(2) f show ?thesis by (simp add: gentlySetValue_Some del: gentlySetValue.simps)
  qed
qed

lemma sample_applied:
  "applySuggestions sampleSuggestions sampleForm
     = Inr (sampleForm\<lparr>subcategoryField := Some (selectElem\<lparr>elemValue := js ''B''\<rparr>)\<rparr>)"
  by (simp add: applySuggestions_def setDescription_def sampleSuggestions_def sampleForm_def
      selectElem_def textElem_def js_def Let_def trim_def isSpace_def)

text \<open>
  The text input for the serial number holds \<^verbatim>\<open>X1\<close> and keeps it although the payload
  suggests \<^verbatim>\<open>SN1\<close>; the subcategory, a \<^verbatim>\<open>SELECT\<close> with the options \<^verbatim>\<open>A\<close> and
  \<^verbatim>\<open>B\<close>, takes the suggested \<^verbatim>\<open>B\<close>.
\<close>

theorem applySuggestions_fields_witness:
  "applySuggestions sampleSuggestions sampleForm
     = Inr (sampleForm\<lparr>subcategoryField := Some (selectElem\<lparr>elemValue := js ''B''\<rparr>)\<rparr>)
   \<and> fieldOf Serial sampleForm = Some textElem
   \<and> tagName textElem \<noteq> js ''SELECT''
   \<and> trim (elemValue textElem) \<noteq> []
   \<and> fieldOf Serial (sampleForm\<lparr>subcategoryField := Some (selectElem\<lparr>elemValue := js ''B''\<rparr>)\<rparr>)
       = Some textElem
   \<and> fieldOf Subcategory sampleForm = Some selectElem
   \<and> tagName selectElem = js ''SELECT''
   \<and> truthy (getProp sampleSuggestions (suggestionKey Subcategory))
   \<and> toString (getProp sampleSuggestions (suggestionKey Subcategory)) \<in> set (optionValues selectElem)
   \<and> fieldOf Subcategory
        (sampleForm\<lparr>subcategoryField := Some (selectElem\<lparr>elemValue := js ''B''\<rparr>)\<rparr>)
       = Some (selectElem\<lparr>elemValue := js ''B''\<rparr>)"
proof -
  have b: "fieldOf Serial sampleForm = Some textElem"
    "fieldOf Subcategory sampleForm = Some selectElem"
    by (simp_all add: sampleForm_def)
  have c: "tagName textElem \<noteq> js ''SELECT''" "trim (elemValue textElem) \<noteq> []"
    "tagName selectElem = js ''SELECT''"
    "truthy (getProp sampleSuggestions (suggestionKey Subcategory))"
    "toString (getProp sampleSuggestions (suggestionKey Subcategory)) \<in> set (optionValues selectElem)"
    by (simp_all add: textElem_def selectElem_def sampleSuggestions_def js_def trim_def isSpace_def)
  from applySuggestions_fields [OF sample_applied b(1)]
       applySuggestions_fields [OF sample_applied b(2)] c sample_applied b
  show ?thesis
    by simp
qed

text \<open>
  The claim as it was stated fails on a \<^verbatim>\<open>SELECT\<close>: the subcategory holds the value
  \<^verbatim>\<open>A\<close>, which is not blank, and applying a payload that suggests \<^verbatim>\<open>B\<close> changes it
  to \<^verbatim>\<open>B\<close>.
\<close>

theorem applySuggestions_select_counterexample:
  "fieldOf Subcategory sampleForm = Some selectElem
   \<and> trim (elemValue selectElem) \<noteq> []
   \<and> applySuggestions sampleSuggestions sampleForm
       = Inr (sampleForm\<lparr>subcategoryField := Some (selectElem\<lparr>elemValue := js ''B''\<rparr>)\<rparr>)
   \<and> elemValue (selectElem\<lparr>elemValue := js ''B''\<rparr>) \<noteq> elemValue selectElem"
  by (simp add: applySuggestions_def setDescription_def sampleSuggestions_def sampleForm_def
      selectElem_def textElem_def js_def Let_def trim_def isSpace_def)

section \<open>Properties of the Selection Store\<close>

lemmas helper_defs = queueAnalysis_def updateClearButton_def renderStrip_def syncFileInput_def
  clearSession_def showStatusText_def cancelPendingTimer_def clearTimeout_def setTimeout_def
  handleTruthy_def

lemma foldl_add: "foldl (\<lambda>acc x. acc + g x) (a::nat) xs = a + sum_list (map g xs)"
  by (induction xs arbitrary: a) simp_all

lemma totalBytes_sum: "totalBytes s = sum_list (map (fileSize \<circ> pfile) (selectedFiles s))"
  by (simp add: totalBytes_def foldl_add comp_def)

lemma pushed_files:
  "map pfile (selectedFiles (foldl (pushFile p) s fs)) = map pfile (selectedFiles s) @ fs"
  by (induction fs arbitrary: s) (simp_all add: pushFile_def Let_def)

lemma pushed_counts:
  "idCalls (foldl (pushFile p) s fs) = idCalls s + length fs \<and>
   urlCalls (foldl (pushFile p) s fs) = urlCalls s + length fs"
  by (induction fs arbitrary: s) (simp_all add: pushFile_def Let_def)

lemma upt_head: "[c ..< Suc (c + n)] = c # [Suc c ..< Suc (c + n)]"
  by (simp add: upt_conv_Cons del: upt_Suc)

lemma pushFile_shape:
  "selectedFiles (pushFile p s f)
     = selectedFiles s @ [\<lparr>pid = generateId p (idCalls s), pfile = f, previewUrl = urlSource p (urlCalls s)\<rparr>]"
  "idCalls (pushFile p s f) = Suc (idCalls s)"
  "urlCalls (pushFile p s f) = Suc (urlCalls s)"
  "liveUrls (pushFile p s f) = liveUrls s @ [urlSource p (urlCalls s)]"
  by (simp_all add: pushFile_def Let_def)

lemma pushed_ids:
  "map pid (selectedFiles (foldl (pushFile p) s fs))
     = map pid (selectedFiles s) @ map (generateId p) [idCalls s ..< idCalls s + length fs]"
proof (induction fs arbitrary: s)
  case Nil
  show ?case by simp
next
  case (Cons f fs)
  show ?case
    by (simp add: Cons.IH pushFile_shape upt_head del: upt_Suc)
qed




lemma pushed_session: "sessionValue (foldl (pushFile p) s fs) = sessionValue s"
  by (induction fs arbitrary: s) (simp_all add: pushFile_def Let_def)

lemma trim_keeps:
  assumes "s \<noteq> []" "\<not> isSpace (hd s)" "\<not> isSpace (last s)"
  shows "trim s = s"
proof -
  from assms have a: "dropWhile isSpace s = s" by (cases s) simp_all
  from assms have "rev s \<noteq> []" "\<not> isSpace (hd (rev s))" by (simp_all add: hd_rev)
  then have "dropWhile isSpace (rev s) = rev s" by (cases "rev s") simp_all
  with a show ?thesis by (simp add: trim_def)
qed

lemma digits_10: "digits 10 = [49, 48]"
  by (simp add: digits.simps)

lemma limitMessage_shown: "limitMessage \<noteq> [] \<and> length (trim limitMessage) \<noteq> 0"
proof -
  have "trim limitMessage = limitMessage"
    by (rule trim_keeps) (simp_all add: limitMessage_def MAX_FILES_def digits_10 js_def isSpace_def)
  moreover have "limitMessage \<noteq> []" by (simp add: limitMessage_def js_def)
  ultimately show ?thesis by simp
qed

lemma sizeMessage_shown: "sizeMessage \<noteq> [] \<and> length (trim sizeMessage) \<noteq> 0"
proof -
  have "trim sizeMessage = sizeMessage"
    by (rule trim_keeps) (simp_all add: sizeMessage_def js_def isSpace_def)
  moreover have "sizeMessage \<noteq> []" by (simp add: sizeMessage_def js_def)
  ultimately show ?thesis by simp
qed

lemma handleFiles_rejected:
  assumes "List.map_filter id fileList \<noteq> []"
    and "MAX_FILES < length (selectedFiles s) + length (List.map_filter id fileList)
         \<or> MAX_TOTAL_BYTES < totalBytes s + sum_list (map fileSize (List.map_filter id fileList))"
  shows "handleFiles p fileList s =
           s\<lparr>statusText := (if MAX_FILES < length (selectedFiles s) + length (List.map_filter id fileList)
                            then limitMessage else sizeMessage),
             statusTone := Some (js ''error'')\<rparr>"
  using assms limitMessage_shown sizeMessage_shown
  by (auto simp add: handleFiles_def Let_def foldl_add showStatusText_def js_def)

lemma handleFiles_accepted:
  assumes "List.map_filter id fileList \<noteq> []"
    and "length (selectedFiles s) + length (List.map_filter id fileList) \<le> MAX_FILES"
    and "totalBytes s + sum_list (map fileSize (List.map_filter id fileList)) \<le> MAX_TOTAL_BYTES"
  shows "handleFiles p fileList s =
           queueAnalysis (updateClearButton p (renderStrip (syncFileInput p
             (clearSession (foldl (pushFile p) s (List.map_filter id fileList))))))"
  using assms by (simp add: handleFiles_def Let_def foldl_add)

lemma after_push_selected:
  "selectedFiles (queueAnalysis (updateClearButton p (renderStrip (syncFileInput p (clearSession s)))))
     = selectedFiles s"
  by (simp add: helper_defs Let_def split: prod.splits option.splits)


lemma after_push_idCalls:
  "idCalls (queueAnalysis (updateClearButton p (renderStrip (syncFileInput p (clearSession s)))))
     = idCalls s"
  by (simp add: helper_defs Let_def split: prod.splits option.splits)

lemma after_push_session:
  "sessionValue (queueAnalysis (updateClearButton p (renderStrip (syncFileInput p (clearSession s)))))
     = []"
  by (simp add: helper_defs Let_def split: prod.splits option.splits)

lemma selected_frame:
  "selectedFiles (queueAnalysis s) = selectedFiles s"
  "selectedFiles (updateClearButton p s) = selectedFiles s"
  "selectedFiles (renderStrip s) = selectedFiles s"
  "selectedFiles (syncFileInput p s) = selectedFiles s"
  "selectedFiles (clearSession s) = selectedFiles s"
  "selectedFiles (showStatusText p m t s) = selectedFiles s"
  "selectedFiles (cancelPendingTimer s) = selectedFiles s"
  "selectedFiles (revokeObjectURL u s) = selectedFiles s"
  "selectedFiles (abortRequest c s) = selectedFiles s"
  "selectedFiles (analysisFinally s) = selectedFiles s"
  "selectedFiles (markSettled rid s) = selectedFiles s"
  "selectedFiles (analysisFailed p e s) = selectedFiles s"
  "selectedFiles (triggerClicked s) = selectedFiles s"
  "selectedFiles (formSubmit p s) = selectedFiles s"
  by (simp_all add: helper_defs revokeObjectURL_def abortRequest_def analysisFinally_def
      markSettled_def analysisFailed_def triggerClicked_def formSubmit_def Let_def
      split: prod.splits option.splits)

lemma session_frame:
  "sessionValue (queueAnalysis s) = sessionValue s"
  "sessionValue (updateClearButton p s) = sessionValue s"
  "sessionValue (renderStrip s) = sessionValue s"
  "sessionValue (syncFileInput p s) = sessionValue s"
  "sessionValue (clearSession s) = []"
  "sessionValue (showStatusText p m t s) = sessionValue s"
  "sessionValue (cancelPendingTimer s) = sessionValue s"
  "sessionValue (revokeObjectURL u s) = sessionValue s"
  "sessionValue (abortRequest c s) = sessionValue s"
  "sessionValue (analysisFinally s) = sessionValue s"
  "sessionValue (markSettled rid s) = sessionValue s"
  "sessionValue (triggerClicked s) = sessionValue s"
  "sessionValue (formSubmit p s) = sessionValue s"
  by (simp_all add: helper_defs revokeObjectURL_def abortRequest_def analysisFinally_def
      markSettled_def triggerClicked_def formSubmit_def Let_def
      split: prod.splits option.splits)

lemma showStatus_cases:
  "showStatus p m t s =
     (if truthy m \<and> (\<forall>x. m \<noteq> JStr x) then Inl TypeError
      else Inr (showStatusText p (case m of JStr x \<Rightarrow> x | _ \<Rightarrow> []) t s))"
  by (cases m) (simp_all add: showStatus_def showStatusText_def)

lemma analysisResolved_selected:
  "selectedFiles (snd (analysisResolved p ok payload s)) = selectedFiles s"
  by (simp add: analysisResolved_def showStatus_cases selected_frame Let_def
      split: sum.splits)

lemma settleAnalysis_selected: "selectedFiles (settleAnalysis p out s) = selectedFiles s"
proof (cases out)
  case (FetchRejected name)
  then show ?thesis by (simp add: settleAnalysis_def selected_frame)
next
  case (Responded ok body)
  obtain e s' where r: "analysisResolved p ok (case body of None \<Rightarrow> JObj [] | Some v \<Rightarrow> v) s = (e, s')"
    by (cases "analysisResolved p ok (case body of None \<Rightarrow> JObj [] | Some v \<Rightarrow> v) s")
  with analysisResolved_selected [of p ok "case body of None \<Rightarrow> JObj [] | Some v \<Rightarrow> v" s]
  have "selectedFiles s' = selectedFiles s" by simp
  with Responded r show ?thesis
    by (cases e) (simp_all add: settleAnalysis_def selected_frame Let_def)
qed

lemma runAnalysis_selected: "selectedFiles (runAnalysis p s) = selectedFiles s"
  by (simp add: runAnalysis_def selected_frame Let_def split: option.splits)

lemma runAnalysis_session: "sessionValue (runAnalysis p s) = sessionValue s"
  by (simp add: runAnalysis_def session_frame selected_frame Let_def split: option.splits)

lemma revokeAll_session: "sessionValue (revokeAllPreviews s) = sessionValue s"
proof -
  have "sessionValue (foldl (\<lambda>acc item. if previewUrl item \<noteq> []
            then revokeObjectURL (previewUrl item) acc else acc) s xs) = sessionValue s" for xs
    by (induction xs arbitrary: s) (simp_all add: session_frame)
  then show ?thesis by (simp add: revokeAllPreviews_def)
qed

lemma handleFiles_session:
  "selectedFiles (handleFiles p fileList s) \<noteq> selectedFiles s
     \<Longrightarrow> sessionValue (handleFiles p fileList s) = []"
  by (simp add: handleFiles_def Let_def selected_frame session_frame split: if_splits)

lemma handleFiles_session_le: 
  "sessionValue (handleFiles p fileList s) = [] \<or> sessionValue (handleFiles p fileList s) = sessionValue s"
  by (simp add: handleFiles_def Let_def selected_frame session_frame pushed_session)

lemma removeFile_session:
  "sessionValue (removeFile p ident s) =
     (if findIndex (\<lambda>entry. pid entry = ident) (selectedFiles s) = None then sessionValue s else [])"
  by (simp add: removeFile_def Let_def selected_frame session_frame split: option.splits)

lemma removeFile_selected_None:
  "findIndex (\<lambda>entry. pid entry = ident) (selectedFiles s) = None \<Longrightarrow> removeFile p ident s = s"
  by (simp add: removeFile_def)

lemma findIndex_None: "findIndex P xs = None \<longleftrightarrow> (\<forall>x \<in> set xs. \<not> P x)"
  by (induction xs) (auto split: option.splits)

lemma clearClicked_session: "sessionValue (clearClicked p s) = []"
  by (simp add: clearClicked_def Let_def session_frame)

lemma formReset_session: "sessionValue (formReset p s) = []"
  by (simp add: formReset_def Let_def session_frame)

lemma step_session_cleared:
  "selectedFiles (step p e s) \<noteq> selectedFiles s \<Longrightarrow> sessionValue (step p e s) = []"
proof (cases e)
  case (FilesChosen fs)
  assume "selectedFiles (step p e s) \<noteq> selectedFiles s"
  with FilesChosen
  have "selectedFiles (handleFiles p (map Some fs) (s\<lparr>fileInputFiles := fs\<rparr>))
          \<noteq> selectedFiles (s\<lparr>fileInputFiles := fs\<rparr>)" by simp
  from handleFiles_session [OF this] FilesChosen show ?thesis by simp
next
  case (RemoveClicked ident)
  assume "selectedFiles (step p e s) \<noteq> selectedFiles s"
  with RemoveClicked show ?thesis
    by (cases "findIndex (\<lambda>entry. pid entry = ident) (selectedFiles s)")
       (auto simp add: removeFile_session removeFile_selected_None)
next
  case ClearClicked
  assume "selectedFiles (step p e s) \<noteq> selectedFiles s"
  with ClearClicked show ?thesis by (simp add: clearClicked_session split: if_splits)
next
  case ResetForm
  then show ?thesis by (simp add: formReset_session)
qed (auto simp add: selected_frame settleAnalysis_selected runAnalysis_selected split: if_splits)

lemma accepted_within_limits:
  assumes "length (selectedFiles s) + length fs \<le> MAX_FILES"
    and "totalBytes s + sum_list (map fileSize fs) \<le> MAX_TOTAL_BYTES"
  shows "storeWithinLimits (queueAnalysis (updateClearButton p (renderStrip (syncFileInput p
           (clearSession (foldl (pushFile p) s fs))))))"
proof -
  let ?s' = "queueAnalysis (updateClearButton p (renderStrip (syncFileInput p
               (clearSession (foldl (pushFile p) s fs)))))"
  have sel: "selectedFiles ?s' = selectedFiles (foldl (pushFile p) s fs)"
    by (simp add: selected_frame)
  have "map (fileSize \<circ> pfile) (selectedFiles ?s') = map fileSize (map pfile (selectedFiles ?s'))"
    by simp
  also have "\<dots> = map fileSize (map pfile (selectedFiles s) @ fs)"
    by (simp only: sel pushed_files)
  finally have "totalBytes ?s' = totalBytes s + sum_list (map fileSize fs)"
    by (simp add: totalBytes_sum comp_def)
  moreover have "length (selectedFiles ?s') = length (selectedFiles s) + length fs"
    using arg_cong [OF pushed_files [of p s fs], of length] by (simp add: sel)
  ultimately show ?thesis using assms by (simp add: storeWithinLimits_def)
qed

lemma accepted_ids:
  assumes "inj (generateId p)" and "idsGenerated p s"
    and ids: "map pid (selectedFiles s') = map pid (selectedFiles s) @ map (generateId p) [idCalls s ..< idCalls s + n]"
    and calls: "idCalls s' = idCalls s + n"
  shows "idsGenerated p s'"
proof -
  from assms(2) have d: "distinct (map pid (selectedFiles s))"
    and g: "\<forall>ph \<in> set (selectedFiles s). \<exists>k < idCalls s. pid ph = generateId p k"
    by (simp_all add: idsGenerated_def)
  have new: "distinct (map (generateId p) [idCalls s ..< idCalls s + n])"
    using assms(1) by (simp add: distinct_map inj_on_def inj_def)
  have disj: "set (map pid (selectedFiles s)) \<inter> set (map (generateId p) [idCalls s ..< idCalls s + n]) = {}"
  proof (rule ccontr)
    assume "\<not> ?thesis"
    then obtain x where x1: "x \<in> set (map pid (selectedFiles s))"
      and x2: "x \<in> set (map (generateId p) [idCalls s ..< idCalls s + n])" by blast
    from x1 g obtain k where k: "k < idCalls s" "x = generateId p k" by auto
    from x2 obtain j where j: "idCalls s \<le> j" "x = generateId p j" by auto
    from k j assms(1) have "k = j" by (simp add: inj_def)
    with k j show False by simp
  qed
  from d new disj have dist: "distinct (map pid (selectedFiles s'))"
    by (simp only: ids distinct_append)
  have "\<exists>k < idCalls s'. pid ph = generateId p k" if "ph \<in> set (selectedFiles s')" for ph
  proof -
    from that have "pid ph \<in> set (map pid (selectedFiles s'))" by simp
    then have "pid ph \<in> set (map pid (selectedFiles s)) \<or>
               pid ph \<in> set (map (generateId p) [idCalls s ..< idCalls s + n])"
      by (simp only: ids set_append Un_iff)
    then show ?thesis
    proof
      assume "pid ph \<in> set (map pid (selectedFiles s))"
      with g obtain k where "k < idCalls s" "pid ph = generateId p k" by auto
      with calls show ?thesis by (intro exI [of _ k]) simp
    next
      assume "pid ph \<in> set (map (generateId p) [idCalls s ..< idCalls s + n])"
      then obtain j where "j < idCalls s + n" "pid ph = generateId p j" by auto
      with calls show ?thesis by (intro exI [of _ j]) simp
    qed
  qed
  with dist show ?thesis by (simp add: idsGenerated_def)
qed

lemmas sample_defs = generateId_def samplePage_def fileA_def fileHuge_def sampleForm_def selectElem_def
  textElem_def initState_def

lemmas eval_defs = handleFiles_def List.map_filter_def MAX_FILES_def MAX_TOTAL_BYTES_def
  totalBytes_def pushFile_def helper_defs Let_def

lemma boundState_eval:
  "selectedFiles boundState = [\<lparr>pid = js ''photo-'', pfile = fileA, previewUrl = js ''blob:''\<rparr>]"
  "sessionValue boundState = js ''abc''"
  "timers boundState = [(1, 350)]"
  "analysisTimeout boundState = Some 1"
  "nextTimer boundState = 2"
  "now boundState = 0"
  "requests boundState = []"
  "analysisController boundState = None"
  "analyzing boundState = False"
  "fileInputFiles boundState = [fileA]"
  "idCalls boundState = 1"
  "urlCalls boundState = 1"
  by (simp_all add: boundState_def sample_defs eval_defs)


lemma sum_list_without:
  "sum_list (map g (take i xs @ drop (Suc i) xs)) \<le> (sum_list (map g xs) :: nat)"
proof (induction xs arbitrary: i)
  case Nil
  show ?case by simp
next
  case (Cons x xs)
  show ?case
  proof (cases i)
    case 0
    then show ?thesis by simp
  next
    case (Suc j)
    with Cons.IH [of j] show ?thesis by simp
  qed
qed

lemma removeFile_selected:
  "selectedFiles (removeFile p ident s) =
     (case findIndex (\<lambda>entry. pid entry = ident) (selectedFiles s) of
        None \<Rightarrow> selectedFiles s
      | Some index \<Rightarrow> take index (selectedFiles s) @ drop (Suc index) (selectedFiles s))"
  by (simp add: removeFile_def Let_def selected_frame split: option.splits)

lemma revokeAll_selected: "selectedFiles (revokeAllPreviews s) = selectedFiles s"
proof -
  have "selectedFiles (foldl (\<lambda>acc item. if previewUrl item \<noteq> []
            then revokeObjectURL (previewUrl item) acc else acc) s xs) = selectedFiles s" for xs
    by (induction xs arbitrary: s) (simp_all add: selected_frame)
  then show ?thesis by (simp add: revokeAllPreviews_def)
qed

lemma clearClicked_selected: "selectedFiles (clearClicked p s) = []"
  by (simp add: clearClicked_def Let_def selected_frame)

lemma formReset_selected: "selectedFiles (formReset p s) = []"
  by (simp add: formReset_def Let_def selected_frame)

lemma within_limits_empty: "selectedFiles s = [] \<Longrightarrow> storeWithinLimits s"
  by (simp add: storeWithinLimits_def totalBytes_def)

lemma handleFiles_within_limits:
  assumes "storeWithinLimits s"
  shows "storeWithinLimits (handleFiles p fileList s)"
proof -
  let ?inc = "List.map_filter id fileList"
  consider (none) "?inc = []"
    | (over) "?inc \<noteq> []" "MAX_FILES < length (selectedFiles s) + length ?inc
         \<or> MAX_TOTAL_BYTES < totalBytes s + sum_list (map fileSize ?inc)"
    | (ok) "?inc \<noteq> []" "length (selectedFiles s) + length ?inc \<le> MAX_FILES"
         "totalBytes s + sum_list (map fileSize ?inc) \<le> MAX_TOTAL_BYTES"
    by linarith
  then show ?thesis
  proof cases
    case none
    with assms show ?thesis by (simp add: handleFiles_def)
  next
    case over
    have "storeWithinLimits (s\<lparr>statusText := m, statusTone := t\<rparr>)" for m t
      using assms by (simp add: storeWithinLimits_def totalBytes_def)
    then show ?thesis by (simp only: handleFiles_rejected [OF over])
  next
    case ok
    show ?thesis
      by (simp only: handleFiles_accepted [OF ok] accepted_within_limits [OF ok(2,3)])
  qed
qed

lemma step_within_limits:
  assumes "storeWithinLimits s"
  shows "storeWithinLimits (step p e s)"
proof (cases e)
  case (FilesChosen fs)
  have "storeWithinLimits (s\<lparr>fileInputFiles := fs\<rparr>)"
    using assms by (simp add: storeWithinLimits_def totalBytes_def)
  from handleFiles_within_limits [OF this] FilesChosen show ?thesis by simp
next
  case (RemoveClicked ident)
  show ?thesis
  proof (cases "findIndex (\<lambda>entry. pid entry = ident) (selectedFiles s)")
    case None
    with RemoveClicked assms show ?thesis by (simp add: removeFile_selected_None)
  next
    case (Some i)
    let ?xs = "selectedFiles s"
    have "length (take i ?xs @ drop (Suc i) ?xs) \<le> length ?xs" by simp
    moreover have "sum_list (map (fileSize \<circ> pfile) (take i ?xs @ drop (Suc i) ?xs))
                     \<le> sum_list (map (fileSize \<circ> pfile) ?xs)"
      by (rule sum_list_without)
    ultimately show ?thesis
      using assms RemoveClicked Some
      by (simp add: storeWithinLimits_def totalBytes_sum removeFile_selected)
  qed
next
  case ClearClicked
  with assms show ?thesis by (simp add: within_limits_empty clearClicked_selected)
next
  case TriggerClicked
  with assms show ?thesis by (simp add: storeWithinLimits_def totalBytes_def selected_frame)
next
  case Submitted
  with assms show ?thesis by (simp add: storeWithinLimits_def totalBytes_def selected_frame)
next
  case ResetForm
  then show ?thesis by (simp add: within_limits_empty formReset_selected)
next
  case (Elapsed d)
  with assms show ?thesis by (simp add: storeWithinLimits_def totalBytes_def)
next
  case (TimerFired t)
  with assms show ?thesis
    by (simp add: storeWithinLimits_def totalBytes_def runAnalysis_selected)
next
  case (Settled rid out)
  with assms show ?thesis
    by (simp add: storeWithinLimits_def totalBytes_def settleAnalysis_selected selected_frame)
qed

lemma run_within_limits: "storeWithinLimits (run p es (initState p form))"
proof -
  have "storeWithinLimits s \<Longrightarrow> storeWithinLimits (foldl (\<lambda>acc e. step p e acc) s es)" for s
    by (induction es arbitrary: s) (simp_all add: step_within_limits)
  moreover have "storeWithinLimits (initState p form)"
    by (simp add: within_limits_empty initState_def updateClearButton_def)
  ultimately show ?thesis by (simp add: run_def)
qed






lemma findIndex_present:
  "\<exists>entry \<in> set xs. P entry \<Longrightarrow> findIndex P xs \<noteq> None"
  by (simp add: findIndex_None)

lemma step_session_rebound:
  assumes "sessionValue (step p e s) \<noteq> []" and "sessionValue s = []"
  shows "\<exists>rid out. e = Settled rid out"
proof (cases e)
  case (FilesChosen fs)
  with assms handleFiles_session_le [of p "map Some fs" "s\<lparr>fileInputFiles := fs\<rparr>"]
  show ?thesis by simp
next
  case (RemoveClicked ident)
  with assms show ?thesis by (simp add: removeFile_session split: if_splits)
next
  case ClearClicked
  with assms show ?thesis by (simp add: clearClicked_session split: if_splits)
next
  case TriggerClicked
  with assms show ?thesis by (simp add: session_frame split: if_splits)
next
  case Submitted
  with assms show ?thesis by (simp add: session_frame)
next
  case ResetForm
  with assms show ?thesis by (simp add: formReset_session)
next
  case (Elapsed d)
  with assms show ?thesis by simp
next
  case (TimerFired t)
  with assms show ?thesis by (simp add: runAnalysis_session split: if_splits)
next
  case (Settled rid out)
  then show ?thesis by simp
qed

text \<open>
  C5. An accepted add, the removal of an id that is present, and a clear each leave the
  hidden session field empty when the handler returns. More generally every event that
  changes the store leaves the field empty, and from an empty field only the settlement
  of an analysis request can fill it again.
\<close>

theorem mutation_unbinds_session:
  "(incoming = List.map_filter id fileList \<and> incoming \<noteq> [] \<and>
      length (selectedFiles s) + length incoming \<le> 10 \<and>
      totalBytes s + sum_list (map fileSize incoming) \<le> 25 * 1024 * 1024 \<longrightarrow>
      sessionValue (handleFiles p fileList s) = [])
   \<and> ((\<exists>entry \<in> set (selectedFiles s). pid entry = ident) \<longrightarrow>
      sessionValue (removeFile p ident s) = [])
   \<and> sessionValue (clearClicked p s) = []
   \<and> (selectedFiles (step p e s) \<noteq> selectedFiles s \<longrightarrow> sessionValue (step p e s) = [])
   \<and> (sessionValue s = [] \<and> sessionValue (step p e s) \<noteq> [] \<longrightarrow> (\<exists>rid out. e = Settled rid out))"
proof (intro conjI impI)
  assume a: "incoming = List.map_filter id fileList \<and> incoming \<noteq> [] \<and>
      length (selectedFiles s) + length incoming \<le> 10 \<and>
      totalBytes s + sum_list (map fileSize incoming) \<le> 25 * 1024 * 1024"
  then have ne: "List.map_filter id fileList \<noteq> []"
    and c: "length (selectedFiles s) + length (List.map_filter id fileList) \<le> MAX_FILES"
    and b: "totalBytes s + sum_list (map fileSize (List.map_filter id fileList)) \<le> MAX_TOTAL_BYTES"
    by (auto simp add: MAX_FILES_def MAX_TOTAL_BYTES_def)
  show "sessionValue (handleFiles p fileList s) = []"
    by (simp only: handleFiles_accepted [OF ne c b] after_push_session)
next
  assume "\<exists>entry \<in> set (selectedFiles s). pid entry = ident"
  then have "findIndex (\<lambda>entry. pid entry = ident) (selectedFiles s) \<noteq> None"
    by (rule findIndex_present)
  then show "sessionValue (removeFile p ident s) = []"
    by (auto simp add: removeFile_session)
next
  show "sessionValue (clearClicked p s) = []"
    by (rule clearClicked_session)
next
  assume "selectedFiles (step p e s) \<noteq> selectedFiles s"
  then show "sessionValue (step p e s) = []"
    by (rule step_session_cleared)
next
  assume "sessionValue s = [] \<and> sessionValue (step p e s) \<noteq> []"
  then show "\<exists>rid out. e = Settled rid out"
    using step_session_rebound [of p e s] by simp
qed

text \<open>
  In a state whose session field holds \<^verbatim>\<open>abc\<close> each of the three mutations, and a
  form reset, empties the field.
\<close>

theorem mutation_unbinds_session_witness:
  "sessionValue boundState = js ''abc''
   \<and> [fileA] = List.map_filter id [Some fileA] \<and> [fileA] \<noteq> []
   \<and> length (selectedFiles boundState) + length [fileA] \<le> 10
   \<and> totalBytes boundState + sum_list (map fileSize [fileA]) \<le> 25 * 1024 * 1024
   \<and> sessionValue (handleFiles samplePage [Some fileA] boundState) = []
   \<and> (\<exists>entry \<in> set (selectedFiles boundState). pid entry = js ''photo-'')
   \<and> sessionValue (removeFile samplePage (js ''photo-'') boundState) = []
   \<and> sessionValue (clearClicked samplePage boundState) = []
   \<and> selectedFiles (step samplePage ResetForm boundState) \<noteq> selectedFiles boundState
   \<and> sessionValue (step samplePage ResetForm boundState) = []"
proof -
  have h: "[fileA] \<noteq> []
      \<and> length (selectedFiles boundState) + length [fileA] \<le> 10
      \<and> totalBytes boundState + sum_list (map fileSize [fileA]) \<le> 25 * 1024 * 1024"
    by (simp add: List.map_filter_def totalBytes_def boundState_eval fileA_def)
  have r: "\<exists>entry \<in> set (selectedFiles boundState). pid entry = js ''photo-''"
    by (simp add: boundState_eval)
  have m: "selectedFiles (step samplePage ResetForm boundState) \<noteq> selectedFiles boundState"
    by (simp add: formReset_selected boundState_eval)
  from mutation_unbinds_session [of "[fileA]" "[Some fileA]" boundState samplePage "js ''photo-''" ResetForm]
       h r m
  show ?thesis by (simp add: boundState_eval List.map_filter_def)
qed

section \<open>Properties of submission and of the response handling\<close>

lemma formSubmit_cases:
  "formSubmit p s =
     (if sessionValue s \<noteq> [] then s\<lparr>fileInputFiles := []\<rparr>
      else if hasDataTransfer p then s\<lparr>fileInputFiles := map pfile (selectedFiles s)\<rparr>
      else s)"
  by (simp add: formSubmit_def syncFileInput_def)

text \<open>
  C7 (as amended). The submit listener changes neither the session field nor the store.
  With a bound token it empties the native file field, so that only the token is sent.
  With no token, and in a browser that has the \<^verbatim>\<open>DataTransfer\<close> constructor, it makes the
  native file field mirror the store; without that constructor it leaves the native
  field as it is. Hence, where the constructor exists and a selection exists, exactly
  one of the two, token or files, is sent.
\<close>

theorem formSubmit_modes:
  "sessionValue (formSubmit p s) = sessionValue s
   \<and> selectedFiles (formSubmit p s) = selectedFiles s
   \<and> (sessionValue s \<noteq> [] \<longrightarrow> fileInputFiles (formSubmit p s) = [])
   \<and> (sessionValue s = [] \<and> hasDataTransfer p \<longrightarrow>
        fileInputFiles (formSubmit p s) = map pfile (selectedFiles s))
   \<and> (sessionValue s = [] \<and> \<not> hasDataTransfer p \<longrightarrow> formSubmit p s = s)
   \<and> (hasDataTransfer p \<and> selectedFiles s \<noteq> [] \<longrightarrow>
        (sessionValue (formSubmit p s) \<noteq> []) \<noteq> (fileInputFiles (formSubmit p s) \<noteq> []))"
  by (simp add: formSubmit_cases)

text \<open>
  A bound state sends the token alone; the same state with the token cleared sends the
  selected file, and on a page without \<^verbatim>\<open>DataTransfer\<close> the listener does nothing.
\<close>

theorem formSubmit_modes_witness:
  "sessionValue boundState \<noteq> [] \<and> hasDataTransfer samplePage \<and> selectedFiles boundState \<noteq> []
   \<and> fileInputFiles boundState = [fileA]
   \<and> fileInputFiles (formSubmit samplePage boundState) = []
   \<and> sessionValue (formSubmit samplePage boundState) = js ''abc''
   \<and> sessionValue (clearSession boundState) = []
   \<and> fileInputFiles (formSubmit samplePage ((clearSession boundState)\<lparr>fileInputFiles := []\<rparr>)) = [fileA]
   \<and> \<not> hasDataTransfer legacyPage
   \<and> formSubmit legacyPage ((clearSession boundState)\<lparr>fileInputFiles := []\<rparr>)
        = (clearSession boundState)\<lparr>fileInputFiles := []\<rparr>"
proof -
  have h: "sessionValue boundState \<noteq> []" "hasDataTransfer samplePage" "selectedFiles boundState \<noteq> []"
    "\<not> hasDataTransfer legacyPage"
    by (simp_all add: boundState_eval samplePage_def legacyPage_def js_def)
  from formSubmit_modes [of samplePage boundState]
       formSubmit_modes [of samplePage "(clearSession boundState)\<lparr>fileInputFiles := []\<rparr>"]
       formSubmit_modes [of legacyPage "(clearSession boundState)\<lparr>fileInputFiles := []\<rparr>"]
       h
  show ?thesis by (simp add: boundState_eval clearSession_def)
qed

lemmas step_defs = run_def eval_defs timerDue_def runAnalysis_def abortRequest_def canSettle_def
  markSettled_def settleAnalysis_def analysisFailed_def analysisFinally_def analysisResolved_def
  showStatus_def inFlight_def formSubmit_def removeFile_def clearClicked_def

text \<open>
  The claim as it was stated fails where \<^verbatim>\<open>window.DataTransfer\<close> is missing: after two
  picks the store holds both files, the native field holds the second pick only, and
  the submit listener leaves it so although no token is bound.
\<close>

theorem formSubmit_mirror_counterexample:
  "sessionValue (run legacyPage [FilesChosen [fileA], FilesChosen [fileB]]
                   (initState legacyPage sampleForm)) = []
   \<and> map pfile (selectedFiles (run legacyPage [FilesChosen [fileA], FilesChosen [fileB]]
                   (initState legacyPage sampleForm))) = [fileA, fileB]
   \<and> fileInputFiles (run legacyPage [FilesChosen [fileA], FilesChosen [fileB], Submitted]
                   (initState legacyPage sampleForm)) = [fileB]
   \<and> [fileB] \<noteq> [fileA, fileB]"
  by (simp add: step_defs legacyPage_def sample_defs fileB_def)

lemma failedMessage_shown: "failedMessage \<noteq> [] \<and> length (trim failedMessage) \<noteq> 0"
proof -
  have "trim failedMessage = failedMessage"
    by (rule trim_keeps) (simp_all add: failedMessage_def js_def isSpace_def)
  moreover have "failedMessage \<noteq> []" by (simp add: failedMessage_def js_def)
  ultimately show ?thesis by simp
qed

lemma networkMessage_shown: "networkMessage \<noteq> [] \<and> length (trim networkMessage) \<noteq> 0"
proof -
  have "trim networkMessage = networkMessage"
    by (rule trim_keeps) (simp_all add: networkMessage_def js_def isSpace_def)
  moreover have "networkMessage \<noteq> []" by (simp add: networkMessage_def js_def)
  ultimately show ?thesis by simp
qed

lemma readyMessage_shown: "readyMessage \<noteq> [] \<and> length (trim readyMessage) \<noteq> 0"
proof -
  have "trim readyMessage = readyMessage"
    by (rule trim_keeps) (simp_all add: readyMessage_def js_def isSpace_def)
  moreover have "readyMessage \<noteq> []" by (simp add: readyMessage_def js_def)
  ultimately show ?thesis by simp
qed

lemma analyzingMessage_shown: "analyzingMessage \<noteq> [] \<and> length (trim analyzingMessage) \<noteq> 0"
proof -
  have "trim analyzingMessage = analyzingMessage"
    by (rule trim_keeps) (simp_all add: analyzingMessage_def js_def isSpace_def)
  moreover have "analyzingMessage \<noteq> []" by (simp add: analyzingMessage_def js_def)
  ultimately show ?thesis by simp
qed

lemma error_names: "js ''TypeError'' \<noteq> js ''AbortError''"
  by (simp add: js_def)

text \<open>The catch block for any error but an AbortError.\<close>

lemma analysisFailed_network:
  "errorName e \<noteq> js ''AbortError'' \<Longrightarrow>
     analysisFailed p e s = s\<lparr>sessionValue := [], statusText := networkMessage,
                               statusTone := Some (js ''error'')\<rparr>"
  using networkMessage_shown
  by (simp add: analysisFailed_def showStatusText_def clearSession_def js_def)

text \<open>The failure branch of the try block, by the kind of message.\<close>

lemma analysisResolved_failure:
  assumes "\<not> nullish payload"
    and "\<not> ok \<or> getProp payload (js ''status'') \<noteq> JStr (js ''ok'')"
  shows "analysisResolved p ok payload s =
     (case getProp payload (js ''message'') of
        JStr m \<Rightarrow>
          (None, s\<lparr>sessionValue := [],
                   statusText := (if m = [] then failedMessage
                                  else if trim m = [] then defaultStatus p else m),
                   statusTone := Some (js ''error'')\<rparr>)
      | v \<Rightarrow>
          if truthy v then (Some TypeError, s\<lparr>sessionValue := []\<rparr>)
          else (None, s\<lparr>sessionValue := [], statusText := failedMessage,
                        statusTone := Some (js ''error'')\<rparr>))"
  using assms failedMessage_shown
  by (cases "getProp payload (js ''message'')")
     (auto simp add: analysisResolved_def showStatus_def showStatusText_def clearSession_def
        Let_def js_def)

lemma js_empty: "js cs = [] \<longleftrightarrow> cs = []"
  by (simp add: js_def)

lemma analyzingState_eval:
  "selectedFiles analyzingState = [\<lparr>pid = js ''photo-'', pfile = fileA, previewUrl = js ''blob:''\<rparr>]"
  "sessionValue analyzingState = []"
  "statusText analyzingState = analyzingMessage"
  "statusTone analyzingState = Some (js ''progress'')"
  "timers analyzingState = []"
  "analysisTimeout analyzingState = None"
  "analysisController analyzingState = Some 0"
  "analyzing analyzingState = True"
  "chooserOpens analyzingState = 0"
  "formState analyzingState = sampleForm"
  "requests analyzingState =
     [\<lparr>reqId = 0, reqUrl = analyzeUrl samplePage, reqFiles = [fileA], reqAborted = False,
       reqSettled = False\<rparr>]"
  using analyzingMessage_shown
  by (simp_all add: analyzingState_def step_defs sample_defs js_empty)

lemma canSettle_analyzingState:
  "canSettle 0 (Responded ok body) analyzingState"
  by (cases body) (simp_all add: canSettle_def analyzingState_eval)

text \<open>
  C6 (as amended). Let a response be not ok, or ok with a status other than \<^verbatim>\<open>ok\<close>,
  or have a body that is no JSON. Then the continuation returns (every error thrown on
  the way is caught), the session field is empty, the tone is \<^verbatim>\<open>error\<close> and the
  in-flight flag is cleared. The text is the server's message when that is a string
  which is not blank; the fallback of the failure branch when the message is absent or
  falsy; the page's default status text when the message is a non-empty string of white
  space; and the text of the network branch when the body is \<^verbatim>\<open>null\<close> or the message
  is a truthy value that is no string.
\<close>

theorem failed_response_reported:
  assumes "out = Responded ok body"
    and "payload = (case body of None \<Rightarrow> JObj [] | Some v \<Rightarrow> v)"
    and "\<not> ok \<or> body = None \<or> getProp payload (js ''status'') \<noteq> JStr (js ''ok'')"
    and "s' = settleAnalysis p out s"
  shows "sessionValue s' = [] \<and> statusTone s' = Some (js ''error'') \<and> analyzing s' = False
     \<and> statusText s' =
         (if nullish payload then networkMessage
          else case getProp payload (js ''message'') of
                 JStr m \<Rightarrow> if m = [] then failedMessage
                           else if trim m = [] then defaultStatus p else m
               | v \<Rightarrow> if truthy v then networkMessage else failedMessage)"
proof (cases "nullish payload")
  case True
  then have "analysisResolved p ok payload s = (Some TypeError, s)"
    by (simp add: analysisResolved_def)
  with True assms(1,2,4) show ?thesis
    by (simp add: settleAnalysis_def analysisFinally_def analysisFailed_network TypeError_def
        error_names)
next
  case False
  from assms(2,3) have c: "\<not> ok \<or> getProp payload (js ''status'') \<noteq> JStr (js ''ok'')"
    by (cases body) auto
  note r = analysisResolved_failure [OF False c, of p s]
  show ?thesis
  proof (cases "getProp payload (js ''message'')")
    case (JStr m)
    with r False assms(1,2,4) show ?thesis
      by (simp add: settleAnalysis_def analysisFinally_def)
  qed (use r False assms(1,2,4) in \<open>simp_all add: settleAnalysis_def analysisFinally_def
        analysisFailed_network TypeError_def error_names\<close>)
qed

text \<open>
  A status \<^verbatim>\<open>error\<close> with the message \<^verbatim>\<open>No label\<close> shows that message; a response
  that is not ok and has no JSON body shows the fallback.
\<close>

theorem failed_response_reported_witness:
  "getProp errorPayload (js ''status'') \<noteq> JStr (js ''ok'')
   \<and> sessionValue (settleAnalysis samplePage (Responded True (Some errorPayload)) analyzingState) = []
   \<and> statusTone (settleAnalysis samplePage (Responded True (Some errorPayload)) analyzingState)
       = Some (js ''error'')
   \<and> statusText (settleAnalysis samplePage (Responded True (Some errorPayload)) analyzingState)
       = js ''No label''
   \<and> statusText (settleAnalysis samplePage (Responded False None) analyzingState) = failedMessage"
proof -
  have h: "getProp errorPayload (js ''status'') \<noteq> JStr (js ''ok'')"
    by (simp add: errorPayload_def js_def)
  have m: "getProp errorPayload (js ''message'') = JStr (js ''No label'')"
    "trim (js ''No label'') = js ''No label''" "js ''No label'' \<noteq> []"
    by (simp_all add: errorPayload_def js_def trim_def isSpace_def)
  from failed_response_reported [OF refl refl _ refl, of True "Some errorPayload" samplePage analyzingState]
       failed_response_reported [OF refl refl _ refl, of False None samplePage analyzingState]
       h m
  show ?thesis by (simp add: errorPayload_def)
qed

text \<open>
  The claim as it was stated fails for a message of one space: the message is present,
  and the status shows neither it nor the generic fallback but the default text of the
  page.
\<close>

theorem blank_message_counterexample:
  "getProp blankPayload (js ''status'') \<noteq> JStr (js ''ok'')
   \<and> getProp blankPayload (js ''message'') = JStr (js '' '')
   \<and> canSettle 0 (Responded True (Some blankPayload)) analyzingState
   \<and> statusText (step samplePage (Settled 0 (Responded True (Some blankPayload))) analyzingState)
       = defaultStatus samplePage
   \<and> defaultStatus samplePage \<noteq> js '' ''
   \<and> defaultStatus samplePage \<noteq> failedMessage"
  by (simp add: canSettle_analyzingState)
     (simp add: blankPayload_def samplePage_def failedMessage_def settleAnalysis_def
        analysisResolved_def showStatus_def showStatusText_def clearSession_def analysisFinally_def
        markSettled_def Let_def js_def trim_def isSpace_def)

lemma analysisResolved_frame:
  "snd (analysisResolved p ok payload s) =
     s\<lparr>sessionValue := sessionValue (snd (analysisResolved p ok payload s)),
       statusText := statusText (snd (analysisResolved p ok payload s)),
       statusTone := statusTone (snd (analysisResolved p ok payload s)),
       formState := formState (snd (analysisResolved p ok payload s))\<rparr>"
  by (simp add: analysisResolved_def showStatus_cases showStatusText_def clearSession_def Let_def
      split: sum.splits)

lemma analysisFailed_frame:
  "analysisFailed p e s =
     s\<lparr>sessionValue := sessionValue (analysisFailed p e s),
       statusText := statusText (analysisFailed p e s),
       statusTone := statusTone (analysisFailed p e s)\<rparr>"
  by (simp add: analysisFailed_def showStatusText_def clearSession_def Let_def)

lemma analysisResolved_keeps:
  assumes "\<And>t sv st tone fs.
     g (t\<lparr>sessionValue := sv, statusText := st, statusTone := tone, formState := fs\<rparr>) = g t"
  shows "g (snd (analysisResolved p ok payload s)) = g s"
  by (subst analysisResolved_frame) (rule assms)

lemma analysisFailed_keeps:
  assumes "\<And>t sv st tone fs.
     g (t\<lparr>sessionValue := sv, statusText := st, statusTone := tone, formState := fs\<rparr>) = g t"
  shows "g (analysisFailed p e s) = g s"
proof -
  have "g (t\<lparr>sessionValue := sv, statusText := st, statusTone := tone\<rparr>) = g t" for t sv st tone
    using assms [where t = t and sv = sv and st = st and tone = tone and fs = "formState t"]
    by simp
  then show ?thesis by (subst analysisFailed_frame) simp
qed

text \<open>
  Settling touches the session field, the status, the form fields and the two in-flight
  markers, and nothing else.
\<close>

lemma settleAnalysis_keeps:
  assumes k: "\<And>t sv st tone fs.
     g (t\<lparr>sessionValue := sv, statusText := st, statusTone := tone, formState := fs\<rparr>) = g t"
    and m: "\<And>t a c. g (t\<lparr>analyzing := a, analysisController := c\<rparr>) = g t"
  shows "g (settleAnalysis p out s) = g s"
proof (cases out)
  case (FetchRejected name)
  then show ?thesis
    by (simp add: settleAnalysis_def analysisFinally_def m analysisFailed_keeps [of g, OF k])
next
  case (Responded ok body)
  let ?payload = "case body of None \<Rightarrow> JObj [] | Some v \<Rightarrow> v"
  obtain e t where r: "analysisResolved p ok ?payload s = (e, t)"
    by (cases "analysisResolved p ok ?payload s")
  with analysisResolved_keeps [of g p ok ?payload s, OF k] have "g t = g s" by simp
  with Responded r show ?thesis
    by (cases e)
       (simp_all add: settleAnalysis_def analysisFinally_def m analysisFailed_keeps [of g, OF k])
qed

lemma settleAnalysis_analyzing:
  "analyzing (settleAnalysis p out s) = False"
  "analysisController (settleAnalysis p out s) = None"
  by (simp_all add: settleAnalysis_def analysisFinally_def)

lemma settleAnalysis_chooser: "chooserOpens (settleAnalysis p out s) = chooserOpens s"
  by (rule settleAnalysis_keeps) simp_all

text \<open>
  C9. When a response is ok, its status is \<^verbatim>\<open>ok\<close> and its session is absent, null or
  the empty string, the session field is set to the empty string, the status becomes
  the success text and the suggestions (or the empty object in their place) have been
  applied to the form.
\<close>

theorem success_without_session:
  assumes "getProp payload (js ''status'') = JStr (js ''ok'')"
    and "getProp payload (js ''session'') \<in> {JUndefined, JNull, JStr []}"
    and "s' = settleAnalysis p (Responded True (Some payload)) s"
  shows "sessionValue s' = [] \<and> statusText s' = readyMessage
     \<and> statusTone s' = Some (js ''success'') \<and> analyzing s' = False
     \<and> applySuggestions
          (if truthy (getProp payload (js ''suggestions''))
           then getProp payload (js ''suggestions'') else JObj [])
          (formState s) = Inr (formState s')"
proof -
  let ?sug = "if truthy (getProp payload (js ''suggestions''))
              then getProp payload (js ''suggestions'') else JObj []"
  from assms(1) have n: "\<not> nullish payload" by (cases payload) simp_all
  from assms(2) have f: "\<not> truthy (getProp payload (js ''session''))" by auto
  have "?sug \<noteq> JNull" by auto
  then have "\<nexists>e. applySuggestions ?sug (formState s) = Inl e"
    by (simp only: applySuggestions_throws) simp
  then obtain form where a: "applySuggestions ?sug (formState s) = Inr form"
    by (cases "applySuggestions ?sug (formState s)") auto
  from n f a assms(1) readyMessage_shown
  have "analysisResolved p True payload s =
          (None, s\<lparr>sessionValue := [], formState := form, statusText := readyMessage,
                   statusTone := Some (js ''success'')\<rparr>)"
    by (simp add: analysisResolved_def showStatusText_def Let_def js_empty)
  with a assms(3) show ?thesis
    by (simp add: settleAnalysis_def analysisFinally_def)
qed

text \<open>A payload with status \<^verbatim>\<open>ok\<close>, suggestions and no session.\<close>

theorem success_without_session_witness:
  "getProp okPayload (js ''status'') = JStr (js ''ok'')
   \<and> getProp okPayload (js ''session'') = JUndefined
   \<and> sessionValue (settleAnalysis samplePage (Responded True (Some okPayload)) analyzingState) = []
   \<and> statusText (settleAnalysis samplePage (Responded True (Some okPayload)) analyzingState)
       = readyMessage
   \<and> formState (settleAnalysis samplePage (Responded True (Some okPayload)) analyzingState)
       = sampleForm\<lparr>subcategoryField := Some (selectElem\<lparr>elemValue := js ''B''\<rparr>)\<rparr>"
proof -
  have h: "getProp okPayload (js ''status'') = JStr (js ''ok'')"
    "getProp okPayload (js ''session'') = JUndefined"
    "getProp okPayload (js ''suggestions'') = sampleSuggestions"
    "truthy sampleSuggestions"
    by (simp_all add: okPayload_def sampleSuggestions_def js_def)
  then have m: "getProp okPayload (js ''session'') \<in> {JUndefined, JNull, JStr []}" by simp
  from success_without_session [OF h(1) m refl, of samplePage analyzingState] h sample_applied
  show ?thesis by (simp add: analyzingState_eval)
qed

text \<open>
  The trigger and the \<open>analyzing\<close> flag. A timer that fires on a non-empty store sends a
  request and sets the flag. While the flag is set, a click on the trigger changes
  nothing: the chooser is not opened. With the flag cleared the click opens the chooser,
  and every settlement of a request clears the flag, so that the next click opens it.
\<close>

lemma trigger_blocked_while_analyzing:
  "(timerDue t s \<and> selectedFiles s \<noteq> [] \<longrightarrow> analyzing (step p (TimerFired t) s))
   \<and> (analyzing s \<longrightarrow> step p TriggerClicked s = s)
   \<and> (\<not> analyzing s \<and> hasTrigger p \<longrightarrow>
        step p TriggerClicked s = s\<lparr>chooserOpens := chooserOpens s + 1\<rparr>)
   \<and> (canSettle rid out s \<longrightarrow>
        analyzing (step p (Settled rid out) s) = False \<and>
        (hasTrigger p \<longrightarrow>
           chooserOpens (step p TriggerClicked (step p (Settled rid out) s)) = chooserOpens s + 1))"
  by (simp add: triggerClicked_def settleAnalysis_analyzing settleAnalysis_chooser markSettled_def
      runAnalysis_def showStatusText_def Let_def)

text \<open>
  A due timer sets the flag; with one request in flight the click is ignored; after its
  settlement it is not.
\<close>

lemma trigger_blocked_example:
  "timerDue 1 (step samplePage (Elapsed 350) boundState)
   \<and> selectedFiles (step samplePage (Elapsed 350) boundState) \<noteq> []
   \<and> analyzing (step samplePage (TimerFired 1) (step samplePage (Elapsed 350) boundState))
   \<and> analyzing analyzingState \<and> hasTrigger samplePage
   \<and> step samplePage TriggerClicked analyzingState = analyzingState
   \<and> canSettle 0 (Responded True (Some okPayload)) analyzingState
   \<and> analyzing (step samplePage (Settled 0 (Responded True (Some okPayload))) analyzingState) = False
   \<and> chooserOpens (step samplePage TriggerClicked
        (step samplePage (Settled 0 (Responded True (Some okPayload))) analyzingState)) = 1"
proof -
  have h: "analyzing analyzingState" "hasTrigger samplePage"
    "canSettle 0 (Responded True (Some okPayload)) analyzingState"
    by (simp_all add: analyzingState_eval samplePage_def canSettle_analyzingState)
  have d: "timerDue 1 (step samplePage (Elapsed 350) boundState)"
    "selectedFiles (step samplePage (Elapsed 350) boundState) \<noteq> []"
    by (simp_all add: timerDue_def boundState_eval)
  from trigger_blocked_while_analyzing
         [of 1 analyzingState samplePage 0 "Responded True (Some okPayload)"]
       trigger_blocked_while_analyzing
         [of 1 "step samplePage (Elapsed 350) boundState" samplePage 0
            "Responded True (Some okPayload)"] h d
  show ?thesis by (simp add: analyzingState_eval del: step.simps)
qed

section \<open>Properties of the Debounced Analysis Trigger\<close>

lemma sameTimers_refl: "sameTimers s s"
  by (simp add: sameTimers_def)

lemma sameTimers_trans: "sameTimers a b \<Longrightarrow> sameTimers b c \<Longrightarrow> sameTimers a c"
  by (simp add: sameTimers_def)

lemma sameTimers_helpers:
  "sameTimers (updateClearButton p s) s"
  "sameTimers (renderStrip s) s"
  "sameTimers (syncFileInput p s) s"
  "sameTimers (clearSession s) s"
  "sameTimers (showStatusText p m t s) s"
  "sameTimers (revokeObjectURL u s) s"
  "sameTimers (abortRequest c s) s"
  "sameTimers (analysisFinally s) s"
  "sameTimers (markSettled rid s) s"
  "sameTimers (triggerClicked s) s"
  "sameTimers (formSubmit p s) s"
  "sameTimers (pushFile p s f) s"
  by (simp_all add: sameTimers_def updateClearButton_def renderStrip_def syncFileInput_def
      clearSession_def showStatusText_def revokeObjectURL_def abortRequest_def analysisFinally_def
      markSettled_def triggerClicked_def formSubmit_def pushFile_def Let_def)

lemma sameTimers_pushes: "sameTimers (foldl (pushFile p) s fs) s"
proof (induction fs arbitrary: s)
  case Nil
  show ?case by (simp add: sameTimers_refl)
next
  case (Cons f fs)
  from Cons.IH [of "pushFile p s f"] sameTimers_helpers(12) [of p s f]
  show ?case by (simp add: sameTimers_def)
qed

lemma sameTimers_revokeAll: "sameTimers (revokeAllPreviews s) s"
proof -
  have "sameTimers (foldl (\<lambda>acc item. if previewUrl item \<noteq> []
            then revokeObjectURL (previewUrl item) acc else acc) s xs) s" for xs
  proof (induction xs arbitrary: s)
    case Nil
    show ?case by (simp add: sameTimers_refl)
  next
    case (Cons x xs)
    from Cons.IH [of "revokeObjectURL (previewUrl x) s"] Cons.IH [of s]
    show ?case by (simp add: sameTimers_def revokeObjectURL_def)
  qed
  then show ?thesis by (simp add: revokeAllPreviews_def)
qed

lemma sameTimers_settle: "sameTimers (settleAnalysis p out s) s"
proof -
  have "timers (settleAnalysis p out s) = timers s" by (rule settleAnalysis_keeps) simp_all
  moreover have "analysisTimeout (settleAnalysis p out s) = analysisTimeout s"
    by (rule settleAnalysis_keeps) simp_all
  moreover have "nextTimer (settleAnalysis p out s) = nextTimer s"
    by (rule settleAnalysis_keeps) simp_all
  moreover have "now (settleAnalysis p out s) = now s"
    by (rule settleAnalysis_keeps) simp_all
  ultimately show ?thesis by (simp add: sameTimers_def)
qed

text \<open>What the two timer operations do to the timer variables.\<close>

lemma queueAnalysis_timers:
  "timers (queueAnalysis s) =
     (if handleTruthy (analysisTimeout s)
      then filter (\<lambda>(i, due). Some i \<noteq> analysisTimeout s) (timers s) else timers s)
     @ [(nextTimer s, now s + 350)]"
  "analysisTimeout (queueAnalysis s) = Some (nextTimer s)"
  "nextTimer (queueAnalysis s) = Suc (nextTimer s)"
  "now (queueAnalysis s) = now s"
  by (auto simp add: queueAnalysis_def clearTimeout_def setTimeout_def handleTruthy_def Let_def
      split: option.splits intro!: filter_cong)

lemma cancelPendingTimer_timers:
  "timers (cancelPendingTimer s) =
     (if handleTruthy (analysisTimeout s)
      then filter (\<lambda>(i, due). Some i \<noteq> analysisTimeout s) (timers s) else timers s)"
  "analysisTimeout (cancelPendingTimer s) =
     (if handleTruthy (analysisTimeout s) then None else analysisTimeout s)"
  "nextTimer (cancelPendingTimer s) = nextTimer s"
  "now (cancelPendingTimer s) = now s"
  by (auto simp add: cancelPendingTimer_def clearTimeout_def handleTruthy_def
      split: option.splits intro!: filter_cong)

lemma sameTimers_queue: "sameTimers a b \<Longrightarrow> sameTimers (queueAnalysis a) (queueAnalysis b)"
  by (simp add: sameTimers_def queueAnalysis_timers)

lemma sameTimers_cancel:
  "sameTimers a b \<Longrightarrow> sameTimers (cancelPendingTimer a) (cancelPendingTimer b)"
  by (simp add: sameTimers_def cancelPendingTimer_timers)

lemma tracked_pending_cleared:
  assumes "timersTracked s"
  shows "(if handleTruthy (analysisTimeout s)
          then filter (\<lambda>(i, due). Some i \<noteq> analysisTimeout s) (timers s) else timers s) = []"
proof (cases "timers s")
  case Nil
  then show ?thesis by simp
next
  case (Cons x xs)
  obtain i due where x: "x = (i, due)" by (cases x)
  with Cons assms have a: "analysisTimeout s = Some i" "i \<noteq> 0"
    by (auto simp add: timersTracked_def)
  from assms a have "\<forall>(j, due) \<in> set (timers s). Some j = analysisTimeout s"
    by (auto simp add: timersTracked_def)
  then have "filter (\<lambda>(i, due). Some i \<noteq> analysisTimeout s) (timers s) = []"
    by (auto simp add: filter_empty_conv)
  with a show ?thesis by (simp add: handleTruthy_def)
qed

lemma tracked_queue:
  assumes "timersTracked s"
  shows "timers (queueAnalysis s) = [(nextTimer s, now s + 350)]"
    and "timersTracked (queueAnalysis s)"
proof -
  show t: "timers (queueAnalysis s) = [(nextTimer s, now s + 350)]"
    by (simp only: queueAnalysis_timers tracked_pending_cleared [OF assms]) simp
  from assms have "0 < nextTimer s" by (simp add: timersTracked_def)
  then show "timersTracked (queueAnalysis s)"
    by (simp add: timersTracked_def t queueAnalysis_timers(2,3))
qed

lemma tracked_cancel:
  assumes "timersTracked s"
  shows "timers (cancelPendingTimer s) = []" and "timersTracked (cancelPendingTimer s)"
proof -
  show t: "timers (cancelPendingTimer s) = []"
    by (simp only: cancelPendingTimer_timers tracked_pending_cleared [OF assms])
  from assms have "0 < nextTimer s" by (simp add: timersTracked_def)
  then show "timersTracked (cancelPendingTimer s)"
    by (simp add: timersTracked_def t cancelPendingTimer_timers(2,3))
qed

lemma tracked_same: "sameTimers s' s \<Longrightarrow> timersTracked s \<Longrightarrow> timersTracked s'"
  by (simp add: sameTimers_def timersTracked_def)

lemma spent_same: "sameTimers s' s \<Longrightarrow> spent t s \<Longrightarrow> spent t s'"
  by (simp add: sameTimers_def spent_def)

lemma spent_queue: "spent t s \<Longrightarrow> spent t (queueAnalysis s)"
  by (auto simp add: spent_def queueAnalysis_timers)

lemma spent_cancel: "spent t s \<Longrightarrow> spent t (cancelPendingTimer s)"
  by (auto simp add: spent_def cancelPendingTimer_timers)

lemma sameTimers_refresh:
  "sameTimers (updateClearButton p (renderStrip (syncFileInput p (clearSession s)))) s"
  by (simp add: sameTimers_def updateClearButton_def renderStrip_def syncFileInput_def
      clearSession_def)

lemma handleFiles_timers:
  "sameTimers (handleFiles p fileList s) s \<or> sameTimers (handleFiles p fileList s) (queueAnalysis s)"
proof -
  let ?t = "foldl (pushFile p) s (List.map_filter id fileList)"
  have "sameTimers (updateClearButton p (renderStrip (syncFileInput p (clearSession ?t)))) s"
    by (rule sameTimers_trans [OF sameTimers_refresh sameTimers_pushes])
  then have "sameTimers (queueAnalysis (updateClearButton p (renderStrip (syncFileInput p
               (clearSession ?t))))) (queueAnalysis s)"
    by (rule sameTimers_queue)
  then show ?thesis
    by (simp add: handleFiles_def Let_def sameTimers_refl sameTimers_helpers)
qed

lemma removeFile_timers:
  "sameTimers (removeFile p ident s) s \<or> sameTimers (removeFile p ident s) (queueAnalysis s)
   \<or> sameTimers (removeFile p ident s) (cancelPendingTimer s)"
proof (cases "findIndex (\<lambda>entry. pid entry = ident) (selectedFiles s)")
  case None
  then show ?thesis by (simp add: removeFile_def sameTimers_refl)
next
  case (Some index)
  let ?s1 = "s\<lparr>selectedFiles := take index (selectedFiles s) @ drop (Suc index) (selectedFiles s)\<rparr>"
  let ?s2 = "if previewUrl (selectedFiles s ! index) \<noteq> []
             then revokeObjectURL (previewUrl (selectedFiles s ! index)) ?s1 else ?s1"
  let ?s3 = "updateClearButton p (renderStrip (syncFileInput p (clearSession ?s2)))"
  have "sameTimers ?s2 s" by (simp add: sameTimers_def revokeObjectURL_def)
  with sameTimers_refresh [of p ?s2] have s3: "sameTimers ?s3 s" by (rule sameTimers_trans)
  from s3 have q: "sameTimers (queueAnalysis ?s3) (queueAnalysis s)" by (rule sameTimers_queue)
  from s3 have "sameTimers (cancelPendingTimer ?s3) (cancelPendingTimer s)"
    by (rule sameTimers_cancel)
  with sameTimers_helpers(5) [of p "defaultStatus p" "[]" "cancelPendingTimer ?s3"]
  have c: "sameTimers (showStatusText p (defaultStatus p) [] (cancelPendingTimer ?s3))
             (cancelPendingTimer s)"
    by (rule sameTimers_trans)
  have "removeFile p ident s =
          (if length (selectedFiles ?s3) \<noteq> 0 then queueAnalysis ?s3
           else showStatusText p (defaultStatus p) [] (cancelPendingTimer ?s3))"
    by (simp add: removeFile_def Some Let_def)
  then have "removeFile p ident s = queueAnalysis ?s3
         \<or> removeFile p ident s = showStatusText p (defaultStatus p) [] (cancelPendingTimer ?s3)"
    by (rule ssubst) (rule if_split [THEN iffD2], blast)
  then show ?thesis
  proof
    assume "removeFile p ident s = queueAnalysis ?s3"
    with q show ?thesis by (simp only:) simp
  next
    assume "removeFile p ident s = showStatusText p (defaultStatus p) [] (cancelPendingTimer ?s3)"
    with c show ?thesis by (simp only:) simp
  qed
qed

lemma clearClicked_timers: "sameTimers (clearClicked p s) (cancelPendingTimer s)"
proof -
  let ?s2 = "(revokeAllPreviews (cancelPendingTimer s))\<lparr>selectedFiles := []\<rparr>"
  have "sameTimers ?s2 (cancelPendingTimer s)"
    using sameTimers_revokeAll [of "cancelPendingTimer s"] by (simp add: sameTimers_def)
  with sameTimers_refresh [of p ?s2]
  have "sameTimers (updateClearButton p (renderStrip (syncFileInput p (clearSession ?s2))))
          (cancelPendingTimer s)"
    by (rule sameTimers_trans)
  with sameTimers_helpers(5) show ?thesis
    unfolding clearClicked_def Let_def by (rule sameTimers_trans)
qed

lemma formReset_timers: "sameTimers (formReset p s) (cancelPendingTimer s)"
  using sameTimers_revokeAll [of "cancelPendingTimer s"]
  by (simp add: formReset_def Let_def sameTimers_def updateClearButton_def showStatusText_def
      clearSession_def)

lemma runAnalysis_timers:
  "sameTimers (runAnalysis p s) s \<or> sameTimers (runAnalysis p s) (cancelPendingTimer s)"
  by (simp add: runAnalysis_def Let_def sameTimers_def showStatusText_def abortRequest_def
      split: option.splits)

lemma step_tracked:
  assumes "timersTracked s"
  shows "timersTracked (step p e s)"
proof (cases e)
  case (FilesChosen fs)
  let ?s = "s\<lparr>fileInputFiles := fs\<rparr>"
  have t: "timersTracked ?s" using assms by (simp add: timersTracked_def)
  from handleFiles_timers [of p "map Some fs" ?s] t tracked_queue(2) [OF t] FilesChosen
  show ?thesis by (auto intro: tracked_same)
next
  case (RemoveClicked ident)
  from removeFile_timers [of p ident s] assms tracked_queue(2) [OF assms]
       tracked_cancel(2) [OF assms] RemoveClicked
  show ?thesis by (auto intro: tracked_same)
next
  case ClearClicked
  from clearClicked_timers [of p s] tracked_cancel(2) [OF assms] assms ClearClicked
  show ?thesis by (auto intro: tracked_same)
next
  case TriggerClicked
  with assms sameTimers_helpers(10) [of s] show ?thesis by (auto intro: tracked_same)
next
  case Submitted
  with assms sameTimers_helpers(11) [of p s] show ?thesis by (auto intro: tracked_same)
next
  case ResetForm
  from formReset_timers [of p s] tracked_cancel(2) [OF assms] ResetForm
  show ?thesis by (auto intro: tracked_same)
next
  case (Elapsed d)
  with assms show ?thesis by (simp add: timersTracked_def)
next
  case (TimerFired t)
  let ?s = "s\<lparr>timers := filter (\<lambda>(i, due). i \<noteq> t) (timers s)\<rparr>"
  have t: "timersTracked ?s"
    using assms by (auto simp add: timersTracked_def distinct_map_filter)
  from runAnalysis_timers [of p ?s] t tracked_cancel(2) [OF t] assms TimerFired
  show ?thesis by (auto intro: tracked_same)
next
  case (Settled rid out)
  have "sameTimers (settleAnalysis p out (markSettled rid s)) s"
    by (rule sameTimers_trans [OF sameTimers_settle sameTimers_helpers(9)])
  with assms Settled show ?thesis by (auto intro: tracked_same)
qed

lemma step_spent:
  assumes "spent t s"
  shows "spent t (step p e s)"
proof (cases e)
  case (FilesChosen fs)
  let ?s = "s\<lparr>fileInputFiles := fs\<rparr>"
  have t: "spent t ?s" using assms by (simp add: spent_def)
  from handleFiles_timers [of p "map Some fs" ?s] t spent_queue [OF t] FilesChosen
  show ?thesis by (auto intro: spent_same)
next
  case (RemoveClicked ident)
  from removeFile_timers [of p ident s] assms spent_queue [OF assms]
       spent_cancel [OF assms] RemoveClicked
  show ?thesis by (auto intro: spent_same)
next
  case ClearClicked
  from clearClicked_timers [of p s] spent_cancel [OF assms] assms ClearClicked
  show ?thesis by (auto intro: spent_same)
next
  case TriggerClicked
  with assms sameTimers_helpers(10) [of s] show ?thesis by (auto intro: spent_same)
next
  case Submitted
  with assms sameTimers_helpers(11) [of p s] show ?thesis by (auto intro: spent_same)
next
  case ResetForm
  from formReset_timers [of p s] spent_cancel [OF assms] ResetForm
  show ?thesis by (auto intro: spent_same)
next
  case (Elapsed d)
  with assms show ?thesis by (simp add: spent_def)
next
  case (TimerFired u)
  let ?s = "s\<lparr>timers := filter (\<lambda>(i, due). i \<noteq> u) (timers s)\<rparr>"
  have t: "spent t ?s"
    using assms by (auto simp add: spent_def)
  from runAnalysis_timers [of p ?s] t spent_cancel [OF t] assms TimerFired
  show ?thesis by (auto intro: spent_same)
next
  case (Settled rid out)
  have "sameTimers (settleAnalysis p out (markSettled rid s)) s"
    by (rule sameTimers_trans [OF sameTimers_settle sameTimers_helpers(9)])
  with assms Settled show ?thesis by (auto intro: spent_same)
qed

lemma run_tracked: "timersTracked s \<Longrightarrow> timersTracked (run p es s)"
  unfolding run_def by (induction es arbitrary: s) (simp_all add: step_tracked)

lemma run_spent: "spent t s \<Longrightarrow> spent t (run p es s)"
  unfolding run_def by (induction es arbitrary: s) (simp_all add: step_spent)

lemma init_tracked: "timersTracked (initState p form)"
  by (simp add: timersTracked_def initState_def updateClearButton_def)

lemma spent_not_due: "spent t s \<Longrightarrow> \<not> timerDue t s"
  by (force simp add: spent_def timerDue_def)

lemma queueAnalysis_frame:
  "selectedFiles (queueAnalysis s) = selectedFiles s"
  "requests (queueAnalysis s) = requests s"
  "analysisController (queueAnalysis s) = analysisController s"
  by (simp_all add: queueAnalysis_def clearTimeout_def setTimeout_def Let_def
      split: option.splits)

lemma runAnalysis_requests:
  assumes "selectedFiles s \<noteq> []"
  shows "requests (runAnalysis p s) =
     (case analysisController s of
        None \<Rightarrow> requests s
      | Some c \<Rightarrow> map (\<lambda>r. if reqId r = c then r\<lparr>reqAborted := True\<rparr> else r) (requests s))
     @ [\<lparr>reqId = length (requests s), reqUrl = analyzeUrl p,
         reqFiles = map pfile (selectedFiles s), reqAborted = False, reqSettled = False\<rparr>]"
    and "timers (runAnalysis p s) = timers (cancelPendingTimer s)"
  using assms
  by (simp_all add: runAnalysis_def cancelPendingTimer_def clearTimeout_def abortRequest_def
      showStatusText_def Let_def split: option.splits)

text \<open>
  C8. Let the timers be tracked, as they are in every state the widget reaches
  (\<open>run_tracked\<close>, \<open>init_tracked\<close>), let the store be non-empty, and let a second
  trigger follow a first one after \<open>d < 350\<close> milliseconds. The first trigger leaves its
  timer as the only pending one; that timer is not due before the second trigger; the
  second trigger replaces it by its own timer, due 350 ms later; whatever happens
  afterwards the first timer is never due again, so its callback never runs; no request
  is sent by the triggers themselves; and when the second timer fires, exactly one
  request is sent, with the files of the store in order, and no timer stays pending.
\<close>

theorem debounce_single_request:
  assumes "timersTracked s" and "selectedFiles s \<noteq> []" and "d < 350"
    and "s1 = queueAnalysis s"
    and "s2 = queueAnalysis (step p (Elapsed d) s1)"
    and "s3 = step p (TimerFired (nextTimer s1)) (step p (Elapsed 350) s2)"
  shows "timers s1 = [(nextTimer s, now s + 350)]
     \<and> (\<forall>d' \<le> d. \<not> timerDue (nextTimer s) (step p (Elapsed d') s1))
     \<and> timers s2 = [(nextTimer s1, now s + d + 350)] \<and> nextTimer s1 \<noteq> nextTimer s
     \<and> (\<forall>es. \<not> timerDue (nextTimer s) (run p es s2))
     \<and> requests s2 = requests s
     \<and> length (requests s3) = Suc (length (requests s))
     \<and> reqFiles (last (requests s3)) = map pfile (selectedFiles s)
     \<and> timers s3 = []"
proof -
  let ?e1 = "s1\<lparr>now := now s1 + d\<rparr>"
  have t1: "timers s1 = [(nextTimer s, now s + 350)]" and k1: "timersTracked s1"
    unfolding assms(4) by (rule tracked_queue [OF assms(1)])+
  have n1: "nextTimer s1 = Suc (nextTimer s)" "now s1 = now s"
    by (simp_all add: assms(4) queueAnalysis_timers)
  have early: "\<forall>d' \<le> d. \<not> timerDue (nextTimer s) (step p (Elapsed d') s1)"
    using assms(3) by (simp add: timerDue_def t1 n1)
  have k1': "timersTracked ?e1" using k1 by (simp add: timersTracked_def)
  have s2: "s2 = queueAnalysis ?e1" by (simp add: assms(5))
  have t2: "timers s2 = [(nextTimer s1, now s + d + 350)]" and k2: "timersTracked s2"
    using tracked_queue [OF k1'] by (simp_all add: s2 n1)
  have n2: "nextTimer s2 = Suc (Suc (nextTimer s))" "now s2 = now s + d"
    by (simp_all add: s2 queueAnalysis_timers n1)
  have "spent (nextTimer s) s2"
    by (simp add: spent_def t2 n1 n2)
  then have never: "\<forall>es. \<not> timerDue (nextTimer s) (run p es s2)"
    by (intro allI spent_not_due run_spent)
  have f2: "requests s2 = requests s" "selectedFiles s2 = selectedFiles s"
    by (simp_all add: s2 assms(4) queueAnalysis_frame)
  let ?e3 = "s2\<lparr>now := now s2 + 350, timers := []\<rparr>"
  have due: "timerDue (nextTimer s1) (s2\<lparr>now := now s2 + 350\<rparr>)"
    by (simp add: timerDue_def t2 n2)
  have e3: "s3 = runAnalysis p ?e3"
    using due by (simp add: assms(6) t2)
  have ne: "selectedFiles ?e3 \<noteq> []" using assms(2) by (simp add: f2)
  have r: "requests s3 =
       (case analysisController ?e3 of
          None \<Rightarrow> requests ?e3
        | Some c \<Rightarrow> map (\<lambda>r. if reqId r = c then r\<lparr>reqAborted := True\<rparr> else r) (requests ?e3))
       @ [\<lparr>reqId = length (requests ?e3), reqUrl = analyzeUrl p,
           reqFiles = map pfile (selectedFiles ?e3), reqAborted = False, reqSettled = False\<rparr>]"
    unfolding e3 by (rule runAnalysis_requests(1) [OF ne])
  have t3: "timers s3 = timers (cancelPendingTimer ?e3)"
    unfolding e3 by (rule runAnalysis_requests(2) [OF ne])
  from r have "length (requests s3) = Suc (length (requests s))"
    "reqFiles (last (requests s3)) = map pfile (selectedFiles s)"
    by (simp_all add: f2 split: option.splits)
  moreover from t3 have "timers s3 = []"
    by (simp add: cancelPendingTimer_timers)
  ultimately show ?thesis using t1 early t2 n1 never f2 by simp
qed

text \<open>Two triggers 100 ms apart on a state with one selected photo.\<close>

theorem debounce_single_request_witness:
  "timersTracked boundState \<and> selectedFiles boundState \<noteq> [] \<and> (100::nat) < 350
   \<and> timers (queueAnalysis boundState) = [(2, 350)]
   \<and> timers (queueAnalysis (step samplePage (Elapsed 100) (queueAnalysis boundState)))
       = [(3, 450)]
   \<and> \<not> timerDue 2 (run samplePage [Elapsed 1000]
           (queueAnalysis (step samplePage (Elapsed 100) (queueAnalysis boundState))))
   \<and> length (requests (step samplePage (TimerFired 3) (step samplePage (Elapsed 350)
        (queueAnalysis (step samplePage (Elapsed 100) (queueAnalysis boundState)))))) = 1"
proof -
  have h: "timersTracked boundState" "selectedFiles boundState \<noteq> []" "(100::nat) < 350"
    by (simp_all add: timersTracked_def boundState_eval)
  have n: "nextTimer (queueAnalysis boundState) = 3"
    by (simp add: queueAnalysis_timers boundState_eval)
  from debounce_single_request [OF h refl refl refl, of samplePage] h n
  show ?thesis by (simp add: boundState_eval)
qed

lemma messages_shown:
  "trim analyzingMessage \<noteq> []" "analyzingMessage \<noteq> []"
  "trim readyMessage \<noteq> []" "readyMessage \<noteq> []"
  "trim failedMessage \<noteq> []" "failedMessage \<noteq> []"
  "trim networkMessage \<noteq> []" "networkMessage \<noteq> []"
  using analyzingMessage_shown readyMessage_shown failedMessage_shown networkMessage_shown
  by simp_all

lemmas trace_defs = firstStarted_def secondStarted_def firstAborted_def thirdStarted_def
  staleSettled_def bodyAborted_def revokeObjectURL_def step_defs sample_defs fileB_def fileC_def stalePayload_def
  js_def messages_shown

text \<open>
  C2 (the code departs from the claim). The \<^verbatim>\<open>finally\<close> block runs on every exit
  of \<^verbatim>\<open>runAnalysis\<close>, the return for an AbortError included. Three photos are
  chosen and request 0 is sent. Removing a photo starts a second analysis, which aborts
  request 0 and makes request 1 the current one; when request 0 then settles with its
  AbortError, the flag and the controller of request 1 are cleared although request 1
  is still in flight. Removing another photo starts a third analysis, which therefore
  aborts nothing, and the requests 1 and 2 are in flight together.
\<close>

theorem superseded_abort_clears_marker:
  "inFlight secondStarted = [1] \<and> analysisController secondStarted = Some 1
   \<and> analyzing secondStarted
   \<and> canSettle 0 (FetchRejected (js ''AbortError'')) secondStarted
   \<and> inFlight firstAborted = [1] \<and> analysisController firstAborted = None
   \<and> \<not> analyzing firstAborted
   \<and> inFlight thirdStarted = [1, 2]"
  by (simp add: trace_defs)

text \<open>
  A second way to the same effect: a request that is aborted while its body is read
  ends with a rejected \<^verbatim>\<open>json()\<close>, which the program turns into the empty object, so
  that the cancelled request reports a failure over the progress status of its
  successor.
\<close>

lemma superseded_body_read_overwrites_status:
  "statusText secondStarted = analyzingMessage
   \<and> canSettle 0 (Responded True None) secondStarted
   \<and> statusText bodyAborted = failedMessage \<and> statusTone bodyAborted = Some (js ''error'')
   \<and> inFlight bodyAborted = [1] \<and> \<not> analyzing bodyAborted"
  by (simp add: trace_defs)

text \<open>
  C10 (the code departs from the claim). The click listener looks at the \<open>analyzing\<close>
  flag, and the flag follows the requests only as long as none is superseded. In the
  state reached under C2, after the aborted request 0 has settled, request 1 is in
  flight and the flag is cleared: the click on the trigger opens the file chooser.
\<close>

theorem trigger_opens_with_request_in_flight:
  "inFlight firstAborted = [1] \<and> \<not> analyzing firstAborted \<and> hasTrigger samplePage
   \<and> chooserOpens firstAborted = 0
   \<and> chooserOpens (step samplePage TriggerClicked firstAborted) = 1
   \<and> step samplePage TriggerClicked firstAborted \<noteq> firstAborted"
proof -
  have a: "inFlight firstAborted = [1]" "\<not> analyzing firstAborted" "chooserOpens firstAborted = 0"
    by (simp_all add: trace_defs)
  have h: "hasTrigger samplePage" by (simp add: samplePage_def)
  have c: "chooserOpens (step samplePage TriggerClicked firstAborted) = 1"
    using a h by (simp add: triggerClicked_def)
  have "chooserOpens (step samplePage TriggerClicked firstAborted) \<noteq> chooserOpens firstAborted"
    using a c by simp
  then have "step samplePage TriggerClicked firstAborted \<noteq> firstAborted"
    by (rule contrapos_nn) (erule arg_cong)
  with a h c show ?thesis by simp
qed

lemma thirdStarted_eval:
  "sessionValue thirdStarted = []"
  "statusText thirdStarted = analyzingMessage"
  "analysisController thirdStarted = Some 2"
  "analyzing thirdStarted = True"
  "formState thirdStarted = sampleForm"
  "requests thirdStarted =
     [\<lparr>reqId = 0, reqUrl = analyzeUrl samplePage, reqFiles = [fileA, fileB, fileC],
       reqAborted = True, reqSettled = True\<rparr>,
      \<lparr>reqId = 1, reqUrl = analyzeUrl samplePage, reqFiles = [fileB, fileC], reqAborted = False,
       reqSettled = False\<rparr>,
      \<lparr>reqId = 2, reqUrl = analyzeUrl samplePage, reqFiles = [fileC], reqAborted = False,
       reqSettled = False\<rparr>]"
  "map pfile (selectedFiles thirdStarted) = [fileC]"
  by (simp_all add: trace_defs)

lemma no_suggestions_applied: "applySuggestions (JObj []) sampleForm = Inr sampleForm"
  by (simp add: applySuggestions_def setDescription_def sampleForm_def Let_def)

lemma stalePayload_props:
  "\<not> nullish stalePayload"
  "getProp stalePayload (js ''status'') = JStr (js ''ok'')"
  "getProp stalePayload (js ''session'') = JStr (js ''stale'')"
  "getProp stalePayload (js ''suggestions'') = JUndefined"
  by (simp_all add: stalePayload_def js_def)

text \<open>
  C3 (the code departs from the claim). In the state reached above, request 2 is the
  newest request and request 1, started earlier, was never cancelled. When request 1
  settles with a successful response, it binds the session field to its token, which
  stands for two photos while the store holds one, and replaces the progress status of
  request 2 by the success text.
\<close>

theorem stale_response_binds_session:
  "inFlight thirdStarted = [1, 2] \<and> analysisController thirdStarted = Some 2
   \<and> sessionValue thirdStarted = [] \<and> statusText thirdStarted = analyzingMessage
   \<and> canSettle 1 (Responded True (Some stalePayload)) thirdStarted
   \<and> sessionValue staleSettled = js ''stale'' \<and> statusText staleSettled = readyMessage
   \<and> statusTone staleSettled = Some (js ''success'')
   \<and> inFlight staleSettled = [2] \<and> \<not> analyzing staleSettled
   \<and> map pfile (selectedFiles staleSettled) = [fileC]"
proof -
  have c: "canSettle 1 (Responded True (Some stalePayload)) thirdStarted"
    by (simp add: canSettle_def thirdStarted_eval)
  have r: "analysisResolved samplePage True stalePayload (markSettled 1 thirdStarted) =
      (None, (markSettled 1 thirdStarted)
               \<lparr>sessionValue := js ''stale'', formState := sampleForm,
                statusText := readyMessage, statusTone := Some (js ''success'')\<rparr>)"
    by (simp add: analysisResolved_def stalePayload_props markSettled_def thirdStarted_eval
        no_suggestions_applied showStatusText_def messages_shown js_empty Let_def)
  have s: "staleSettled =
      (markSettled 1 thirdStarted)
        \<lparr>sessionValue := js ''stale'', formState := sampleForm, statusText := readyMessage,
         statusTone := Some (js ''success''), analyzing := False, analysisController := None\<rparr>"
    by (simp add: staleSettled_def c settleAnalysis_def r analysisFinally_def del: One_nat_def)
  from c show ?thesis
    by (simp add: s inFlight_def markSettled_def thirdStarted_eval)
qed

section \<open>The origin of the ids in every reachable state\<close>

text \<open>
  When the generator never repeats itself, the ids of the store are distinct answers of
  the generator in every state the widget reaches.
\<close>

lemma ids_same:
  "selectedFiles s' = selectedFiles s \<Longrightarrow> idCalls s' = idCalls s \<Longrightarrow>
     idsGenerated p s \<Longrightarrow> idsGenerated p s'"
  by (simp add: idsGenerated_def)

lemma ids_fewer:
  assumes "idsGenerated p s" and "idCalls s' = idCalls s"
    and "selectedFiles s' = take i (selectedFiles s) @ drop (Suc i) (selectedFiles s)"
  shows "idsGenerated p s'"
proof -
  let ?xs = "selectedFiles s"
  from assms(1) have d: "distinct (map pid ?xs)"
    and g: "\<forall>ph \<in> set ?xs. \<exists>k < idCalls s. pid ph = generateId p k"
    by (simp_all add: idsGenerated_def)
  have "map pid ?xs = map pid (take i ?xs) @ map pid (drop i ?xs)"
    by (simp flip: map_append)
  with d have "distinct (map pid (take i ?xs) @ map pid (drop i ?xs))" by simp
  moreover have "set (drop (Suc i) ?xs) \<subseteq> set (drop i ?xs)"
    by (rule set_drop_subset_set_drop) simp
  moreover have "distinct (map pid (drop (Suc i) ?xs))"
    using d by (simp add: distinct_drop flip: drop_map)
  ultimately have "distinct (map pid (take i ?xs @ drop (Suc i) ?xs))"
    by auto
  moreover have "set (take i ?xs @ drop (Suc i) ?xs) \<subseteq> set ?xs"
    using set_take_subset [of i ?xs] set_drop_subset [of "Suc i" ?xs] by auto
  ultimately show ?thesis
    using g by (auto simp add: idsGenerated_def assms(2,3))
qed

lemma idCalls_frame:
  "idCalls (queueAnalysis s) = idCalls s"
  "idCalls (updateClearButton p s) = idCalls s"
  "idCalls (renderStrip s) = idCalls s"
  "idCalls (syncFileInput p s) = idCalls s"
  "idCalls (clearSession s) = idCalls s"
  "idCalls (showStatusText p m t s) = idCalls s"
  "idCalls (cancelPendingTimer s) = idCalls s"
  "idCalls (revokeObjectURL u s) = idCalls s"
  "idCalls (triggerClicked s) = idCalls s"
  "idCalls (formSubmit p s) = idCalls s"
  "idCalls (markSettled rid s) = idCalls s"
  by (simp_all add: helper_defs revokeObjectURL_def triggerClicked_def formSubmit_def
      markSettled_def Let_def split: prod.splits option.splits)

lemma revokeAll_idCalls: "idCalls (revokeAllPreviews s) = idCalls s"
proof -
  have "idCalls (foldl (\<lambda>acc item. if previewUrl item \<noteq> []
            then revokeObjectURL (previewUrl item) acc else acc) s xs) = idCalls s" for xs
    by (induction xs arbitrary: s) (simp_all add: idCalls_frame)
  then show ?thesis by (simp add: revokeAllPreviews_def)
qed

lemma runAnalysis_idCalls: "idCalls (runAnalysis p s) = idCalls s"
  by (simp add: runAnalysis_def cancelPendingTimer_def clearTimeout_def abortRequest_def
      showStatusText_def Let_def split: option.splits)

lemma settleAnalysis_idCalls: "idCalls (settleAnalysis p out s) = idCalls s"
  by (rule settleAnalysis_keeps) simp_all

lemma removeFile_idCalls: "idCalls (removeFile p ident s) = idCalls s"
  by (simp add: removeFile_def Let_def idCalls_frame split: option.splits)

lemma handleFiles_ids:
  assumes "inj (generateId p)" and "idsGenerated p s"
  shows "idsGenerated p (handleFiles p fileList s)"
proof -
  let ?inc = "List.map_filter id fileList"
  let ?t = "foldl (pushFile p) s ?inc"
  let ?u = "queueAnalysis (updateClearButton p (renderStrip (syncFileInput p (clearSession ?t))))"
  have "idsGenerated p ?u"
  proof (rule accepted_ids [OF assms])
    show "map pid (selectedFiles ?u)
            = map pid (selectedFiles s) @ map (generateId p) [idCalls s ..< idCalls s + length ?inc]"
      by (simp add: after_push_selected pushed_ids)
    show "idCalls ?u = idCalls s + length ?inc"
      by (simp add: after_push_idCalls pushed_counts)
  qed
  moreover have "idsGenerated p (showStatusText p m t s)" for m t
    using assms(2) by (rule ids_same [rotated 2]) (simp_all add: selected_frame idCalls_frame)
  ultimately show ?thesis
    using assms(2) by (simp add: handleFiles_def Let_def)
qed

lemma step_ids:
  assumes "inj (generateId p)" and "idsGenerated p s"
  shows "idsGenerated p (step p e s)"
proof (cases e)
  case (FilesChosen fs)
  have "idsGenerated p (s\<lparr>fileInputFiles := fs\<rparr>)"
    using assms(2) by (simp add: idsGenerated_def)
  from handleFiles_ids [OF assms(1) this] FilesChosen show ?thesis by simp
next
  case (RemoveClicked ident)
  show ?thesis
  proof (cases "findIndex (\<lambda>entry. pid entry = ident) (selectedFiles s)")
    case None
    with RemoveClicked assms(2) show ?thesis by (simp add: removeFile_selected_None)
  next
    case (Some i)
    have "idsGenerated p (removeFile p ident s)"
      using assms(2) removeFile_idCalls
      by (rule ids_fewer) (simp add: removeFile_selected Some)
    with RemoveClicked show ?thesis by simp
  qed
next
  case ClearClicked
  with assms(2) show ?thesis by (simp add: idsGenerated_def clearClicked_selected)
next
  case TriggerClicked
  with assms(2) show ?thesis by (simp add: idsGenerated_def selected_frame idCalls_frame)
next
  case Submitted
  with assms(2) show ?thesis by (simp add: idsGenerated_def selected_frame idCalls_frame)
next
  case ResetForm
  then show ?thesis by (simp add: idsGenerated_def formReset_selected)
next
  case (Elapsed d)
  with assms(2) show ?thesis by (simp add: idsGenerated_def)
next
  case (TimerFired t)
  with assms(2) show ?thesis
    by (simp add: idsGenerated_def runAnalysis_selected runAnalysis_idCalls)
next
  case (Settled rid out)
  with assms(2) show ?thesis
    by (simp add: idsGenerated_def settleAnalysis_selected settleAnalysis_idCalls
        selected_frame idCalls_frame)
qed

lemma run_ids:
  assumes "inj (generateId p)"
  shows "idsGenerated p (run p es (initState p form))"
proof -
  have "idsGenerated p s \<Longrightarrow> idsGenerated p (foldl (\<lambda>acc e. step p e acc) s es)" for s
    by (induction es arbitrary: s) (simp_all add: step_ids [OF assms])
  moreover have "idsGenerated p (initState p form)"
    by (simp add: idsGenerated_def initState_def updateClearButton_def)
  ultimately show ?thesis by (simp add: run_def)
qed

end
